theory Spec2Isabelle
  imports Main "HOL-Library.AList" "HOL-Library.Sublist" "HOL-Library.Multiset"
begin

section \<open>Data model\<close>

text \<open>
  The deployment registry of the DeBros CLI (\<^verbatim>\<open>services/network.ts\<close>): an append-only
  OrbitDB feed \<^verbatim>\<open>application_data\<close> of deployment events, read functions that fold the
  feed into a current state per application and into a version list, and commands that
  publish a message on a libp2p pubsub topic and append a new event.

  An event is the source's \<^verbatim>\<open>AppData\<close>. Its \<^verbatim>\<open>timestamp\<close> is an ISO-8601 string
  written by \<^verbatim>\<open>new Date().toISOString()\<close>; the code only ever reads it through
  \<^verbatim>\<open>new Date(timestamp)\<close>, so the model keeps the instant it denotes (milliseconds
  since the epoch) as an \<open>int\<close>. The source's interface has no \<^verbatim>\<open>isRollback\<close>
  property; the field \<open>isRollback\<close> records whether the stored object carries one
  (\<open>None\<close>: the property is absent), so that what the object literals of the source
  store can be read off the model.
\<close>

datatype status = Running | Stopped | Unknown

record AppData =
  appName :: string
  cid :: string
  version :: string
  timestamp :: int
  deployed :: bool
  domain :: "string option"
  status :: status
  isRollback :: "bool option"

text \<open>An entry of the list returned by \<^verbatim>\<open>getAppVersions\<close>:
  \<^verbatim>\<open>{ tag, cid, timestamp, deployed }\<close>.\<close>

record AppVersion =
  tag :: string
  vcid :: string
  vtimestamp :: int
  vdeployed :: bool

text \<open>
  The JSON payloads published on the pubsub topics. \<open>DeploymentMsg\<close> is
  \<^verbatim>\<open>{type: "deployment", cid, appName, version, domain, isRollback?, timestamp}\<close>;
  \<open>StopMsg\<close>, \<open>StartMsg\<close> and \<open>DeleteMsg\<close> are the \<^verbatim>\<open>"application-action"\<close> payloads
  with their \<^verbatim>\<open>action\<close>; \<open>AppDataUpdateMsg\<close> is
  \<^verbatim>\<open>{type: "app-data-update", appData, timestamp}\<close>.
\<close>

datatype busMessage =
    DeploymentMsg string string string string "bool option" int
  | StopMsg string bool int
  | StartMsg string string string int
  | DeleteMsg string bool int
  | AppDataUpdateMsg AppData int

text \<open>What a command does to the outside, in the order it does it.\<close>

datatype effect =
    Published string busMessage
  | Added AppData

text \<open>
  The world a command runs in. \<open>feed\<close> is the content of the feed in store order
  (what \<^verbatim>\<open>db.iterator({ limit: -1 }).collect()\<close> returns), \<open>trace\<close> the effects so
  far, \<open>clock\<close> the reading of the local clock (\<^verbatim>\<open>Date.now()\<close>, \<^verbatim>\<open>new Date()\<close>),
  \<open>defaultDomain\<close> the configuration value \<^verbatim>\<open>config.defaultDomain\<close>. The other
  fields say how the external collaborators answer: \<open>libp2p\<close> whether
  \<^verbatim>\<open>getLibp2p()\<close> returns an instance, \<open>ipfsErr\<close> the error \<^verbatim>\<open>initIpfs()\<close> throws,
  \<open>dbErr\<close> the error opening or reading the feed throws, \<open>addErr\<close> the error
  \<^verbatim>\<open>db.add\<close> throws, \<open>pubErr topic\<close> the error publishing on \<open>topic\<close> throws
  (\<open>None\<close>: the call succeeds). A thrown error is kept as its message.
\<close>

record world =
  feed :: "AppData list"
  trace :: "effect list"
  clock :: int
  defaultDomain :: string
  libp2p :: bool
  ipfsErr :: "string option"
  dbErr :: "string option"
  addErr :: "string option"
  pubErr :: "string \<Rightarrow> string option"

text \<open>The result objects \<^verbatim>\<open>{ success, message?, version?, cid? }\<close> of the commands.\<close>

record result =
  success :: bool
  message :: "string option"
  rversion :: "string option"
  rcid :: "string option"

definition succeeded :: result where
  "succeeded = \<lparr>success = True, message = None, rversion = None, rcid = None\<rparr>"

definition failure :: "string \<Rightarrow> result" where
  "failure m = \<lparr>success = False, message = Some m, rversion = None, rcid = None\<rparr>"

section \<open>External collaborators\<close>

text \<open>
  Logging and the progress spinner do not touch the feed or the bus and are left out.
  \<^verbatim>\<open>stopIpfs()\<close> only releases the connection; it is taken to return normally.
\<close>

definition initIpfs :: "world \<Rightarrow> string + unit" where
  "initIpfs w = (case ipfsErr w of Some e \<Rightarrow> Inl e | None \<Rightarrow> Inr ())"

text \<open>\<^verbatim>\<open>getApplicationDataDB\<close>: initialise IPFS and OrbitDB, open the feed; an error
  is logged and thrown again. The handle is modelled by the entries it iterates over.\<close>

definition getApplicationDataDB :: "world \<Rightarrow> string + AppData list" where
  "getApplicationDataDB w =
     (case initIpfs w of
        Inl e \<Rightarrow> Inl e
      | Inr _ \<Rightarrow> (case dbErr w of Some e \<Rightarrow> Inl e | None \<Rightarrow> Inr (feed w)))"

text \<open>\<^verbatim>\<open>libp2p.services.pubsub.publish(topic, bytes)\<close>.\<close>

definition publish :: "string \<Rightarrow> busMessage \<Rightarrow> world \<Rightarrow> (string + unit) \<times> world" where
  "publish topic msg w =
     (case pubErr w topic of
        Some e \<Rightarrow> (Inl e, w)
      | None \<Rightarrow> (Inr (), w\<lparr>trace := trace w @ [Published topic msg]\<rparr>))"

text \<open>JavaScript's \<^verbatim>\<open>x || y\<close> on an optional string: \<^verbatim>\<open>undefined\<close> and the empty string
  are falsy.\<close>

definition truthy :: "string option \<Rightarrow> string option" where
  "truthy s = (case s of None \<Rightarrow> None | Some t \<Rightarrow> if t = [] then None else Some t)"

definition orElse :: "string option \<Rightarrow> string \<Rightarrow> string" where
  "orElse s d = (case truthy s of None \<Rightarrow> d | Some t \<Rightarrow> t)"

section \<open>Reading the feed\<close>

text \<open>\<^verbatim>\<open>checkAppNameAvailability\<close>.\<close>

definition checkAppNameAvailability :: "string \<Rightarrow> world \<Rightarrow> string + bool" where
  "checkAppNameAvailability name w =
     (case getApplicationDataDB w of
        Inl e \<Rightarrow> Inl e
      | Inr entries \<Rightarrow>
          (let existingApps = filter (\<lambda>n. n = name) (map appName entries)
           in Inr (length existingApps = 0)))"

text \<open>
  \<^verbatim>\<open>getAllApps\<close>. The \<^verbatim>\<open>Map\<close> is an association list in insertion order
  (\<open>AList.update\<close> replaces the value of a present key in place and puts a new key at
  the end, as \<^verbatim>\<open>Map.set\<close> does). \<open>appMapStep\<close> is the body of the \<^verbatim>\<open>forEach\<close>.
\<close>

definition appMapStep :: "(string \<times> AppData) list \<Rightarrow> AppData \<Rightarrow> (string \<times> AppData) list" where
  "appMapStep appMap appData =
     (case map_of appMap (appName appData) of
        None \<Rightarrow> AList.update (appName appData) appData appMap
      | Some cur \<Rightarrow>
          if timestamp cur < timestamp appData
          then AList.update (appName appData) appData appMap
          else appMap)"

definition getAllApps :: "world \<Rightarrow> string + AppData list" where
  "getAllApps w =
     (case getApplicationDataDB w of
        Inl e \<Rightarrow> Inl e
      | Inr entries \<Rightarrow> Inr (map snd (foldl appMapStep [] (rev entries))))"

text \<open>
  \<^verbatim>\<open>sort((a, b) => new Date(b.timestamp).getTime() - new Date(a.timestamp).getTime())\<close>:
  \<^verbatim>\<open>Array.prototype.sort\<close> is a stable sort, here by descending timestamp; a stable
  insertion sort on the negated timestamp gives the same list.
\<close>

definition newestFirst :: "AppVersion list \<Rightarrow> AppVersion list" where
  "newestFirst vs = sort_key (\<lambda>v. - vtimestamp v) vs"

fun findIndex :: "('a \<Rightarrow> bool) \<Rightarrow> 'a list \<Rightarrow> nat option" where
  "findIndex P [] = None"
| "findIndex P (x # xs) = (if P x then Some 0 else map_option Suc (findIndex P xs))"

text \<open>The block "mark only the latest version as deployed if any are deployed".\<close>

definition markLatestDeployed :: "AppVersion list \<Rightarrow> AppVersion list" where
  "markLatestDeployed versions =
     (case findIndex vdeployed versions of
        None \<Rightarrow> versions
      | Some latestDeployedIndex \<Rightarrow>
          (let cleared = map (\<lambda>v. v\<lparr>vdeployed := False\<rparr>) versions
           in cleared[latestDeployedIndex := (cleared ! latestDeployedIndex)\<lparr>vdeployed := True\<rparr>]))"

definition getAppVersions :: "string \<Rightarrow> world \<Rightarrow> string + AppVersion list" where
  "getAppVersions name w =
     (case getApplicationDataDB w of
        Inl e \<Rightarrow> Inl e
      | Inr entries \<Rightarrow>
          (let appEntries =
                 map (\<lambda>d. \<lparr>tag = version d, vcid = cid d, vtimestamp = timestamp d,
                            vdeployed = deployed d\<rparr>)
                     (filter (\<lambda>d. appName d = name) entries);
               versions = newestFirst appEntries
           in Inr (markLatestDeployed versions)))"

section \<open>Commands\<close>

text \<open>\<^verbatim>\<open>storeAppData\<close>: append to the feed, then tell the peers on
  \<^verbatim>\<open>debros-app-data\<close> when libp2p is there; any error is thrown again.\<close>

definition storeAppData :: "AppData \<Rightarrow> world \<Rightarrow> (string + bool) \<times> world" where
  "storeAppData appData w =
     (case getApplicationDataDB w of
        Inl e \<Rightarrow> (Inl e, w)
      | Inr _ \<Rightarrow>
          (case addErr w of
             Some e \<Rightarrow> (Inl e, w)
           | None \<Rightarrow>
               (let w1 = w\<lparr>feed := feed w @ [appData], trace := trace w @ [Added appData]\<rparr>
                in if libp2p w1
                   then (case publish ''debros-app-data'' (AppDataUpdateMsg appData (clock w1)) w1 of
                           (Inl e, w2) \<Rightarrow> (Inl e, w2)
                         | (Inr _, w2) \<Rightarrow> (Inr True, w2))
                   else (Inr True, w1))))"

text \<open>\<^verbatim>\<open>announceDeployment(cid, appName, version = "latest", domain = "")\<close>; errors are
  thrown to the caller.\<close>

definition announceDeployment ::
  "string \<Rightarrow> string \<Rightarrow> string option \<Rightarrow> string option \<Rightarrow> world \<Rightarrow> (string + bool) \<times> world" where
  "announceDeployment c name versionArg domainArg w =
     (case initIpfs w of
        Inl e \<Rightarrow> (Inl e, w)
      | Inr _ \<Rightarrow>
          if \<not> libp2p w then (Inl ''LibP2P is not initialized'', w)
          else
            (let ver = (case versionArg of None \<Rightarrow> ''latest'' | Some v \<Rightarrow> v);
                 appDomain0 = orElse domainArg (name @ ''.'' @ defaultDomain w);
                 appDomain =
                   (if \<not> suffix (''.'' @ defaultDomain w) appDomain0
                    then takeWhile (\<lambda>ch. ch \<noteq> CHR ''.'') appDomain0 @ ''.'' @ defaultDomain w
                    else appDomain0);
                 msg = DeploymentMsg c name ver appDomain None (clock w)
             in case publish ''debros-deploy'' msg w of
                  (Inl e, w1) \<Rightarrow> (Inl e, w1)
                | (Inr _, w1) \<Rightarrow>
                    (case storeAppData
                            \<lparr>appName = name, cid = c, version = ver, timestamp = clock w1,
                             deployed = True, domain = Some appDomain, status = Running,
                             isRollback = None\<rparr> w1 of
                       (Inl e, w2) \<Rightarrow> (Inl e, w2)
                     | (Inr _, w2) \<Rightarrow> (Inr True, w2))))"

text \<open>\<^verbatim>\<open>rollbackToVersion(appName, versionTag?, domain?, force = false)\<close>; every error
  thrown inside is caught and returned as \<^verbatim>\<open>{ success: false, message }\<close>.\<close>

definition rollbackToVersion ::
  "string \<Rightarrow> string option \<Rightarrow> string option \<Rightarrow> bool \<Rightarrow> world \<Rightarrow> result \<times> world" where
  "rollbackToVersion name versionTag domainArg force w =
     (case initIpfs w of
        Inl e \<Rightarrow> (failure e, w)
      | Inr _ \<Rightarrow>
          if \<not> libp2p w then (failure ''LibP2P is not initialized'', w)
          else
            (case getAppVersions name w of
               Inl e \<Rightarrow> (failure e, w)
             | Inr versions \<Rightarrow>
                 if length versions = 0 then (failure (''No versions found for '' @ name), w)
                 else
                   (case (case truthy versionTag of
                            Some vt \<Rightarrow>
                              (case find (\<lambda>v. tag v = vt) versions of
                                 None \<Rightarrow> Inl (failure (''Version '' @ vt @ '' not found''))
                               | Some t \<Rightarrow> Inr t)
                          | None \<Rightarrow>
                              (let otherVersions =
                                     newestFirst (filter (\<lambda>v. \<not> vdeployed v) versions)
                               in if length otherVersions = 0
                                  then Inl (failure ''No previous versions found to rollback to'')
                                  else Inr (otherVersions ! 0))) of
                      Inl r \<Rightarrow> (r, w)
                    | Inr targetVersion \<Rightarrow>
                        (let appDomain = orElse domainArg (name @ ''.'' @ defaultDomain w);
                             msg = DeploymentMsg (vcid targetVersion) name (tag targetVersion)
                                     appDomain (Some True) (clock w)
                         in case publish ''debros-deploy'' msg w of
                              (Inl e, w1) \<Rightarrow> (failure e, w1)
                            | (Inr _, w1) \<Rightarrow>
                                (case storeAppData
                                        \<lparr>appName = name, cid = vcid targetVersion,
                                         version = tag targetVersion, timestamp = clock w1,
                                         deployed = True, domain = Some appDomain,
                                         status = Running, isRollback = None\<rparr> w1 of
                                   (Inl e, w2) \<Rightarrow> (failure e, w2)
                                 | (Inr _, w2) \<Rightarrow>
                                     (\<lparr>success = True, message = None,
                                       rversion = Some (tag targetVersion),
                                       rcid = Some (vcid targetVersion)\<rparr>, w2))))))"

text \<open>\<^verbatim>\<open>stopApplication(appName, force = false)\<close>.\<close>

definition stopApplication :: "string \<Rightarrow> bool \<Rightarrow> world \<Rightarrow> result \<times> world" where
  "stopApplication name force w =
     (case initIpfs w of
        Inl e \<Rightarrow> (failure e, w)
      | Inr _ \<Rightarrow>
          if \<not> libp2p w then (failure ''LibP2P is not initialized'', w)
          else
            (case publish ''debros-app-actions'' (StopMsg name force (clock w)) w of
               (Inl e, w1) \<Rightarrow> (failure e, w1)
             | (Inr _, w1) \<Rightarrow>
                 (case getAllApps w1 of
                    Inl e \<Rightarrow> (failure e, w1)
                  | Inr apps \<Rightarrow>
                      (case find (\<lambda>app. appName app = name) apps of
                         None \<Rightarrow> (succeeded, w1)
                       | Some appData \<Rightarrow>
                           (case storeAppData
                                   (appData\<lparr>status := Stopped, timestamp := clock w1\<rparr>) w1 of
                              (Inl e, w2) \<Rightarrow> (failure e, w2)
                            | (Inr _, w2) \<Rightarrow> (succeeded, w2))))))"

text \<open>\<^verbatim>\<open>startApplication(appName, versionTag = "latest")\<close>.\<close>

definition startApplication :: "string \<Rightarrow> string option \<Rightarrow> world \<Rightarrow> result \<times> world" where
  "startApplication name versionArg w =
     (let versionTag = (case versionArg of None \<Rightarrow> ''latest'' | Some v \<Rightarrow> v)
      in case initIpfs w of
           Inl e \<Rightarrow> (failure e, w)
         | Inr _ \<Rightarrow>
             if \<not> libp2p w then (failure ''LibP2P is not initialized'', w)
             else
               (case getAppVersions name w of
                  Inl e \<Rightarrow> (failure e, w)
                | Inr versions \<Rightarrow>
                    if length versions = 0
                    then (failure (''No versions found for '' @ name), w)
                    else
                      (case find (\<lambda>v. tag v = versionTag) versions of
                         None \<Rightarrow> (failure (''Version '' @ versionTag @ '' not found''), w)
                       | Some targetVersion \<Rightarrow>
                           (case publish ''debros-app-actions''
                                   (StartMsg name versionTag (vcid targetVersion) (clock w)) w of
                              (Inl e, w1) \<Rightarrow> (failure e, w1)
                            | (Inr _, w1) \<Rightarrow>
                                (case getAllApps w1 of
                                   Inl e \<Rightarrow> (failure e, w1)
                                 | Inr apps \<Rightarrow>
                                     (let appData = find (\<lambda>app. appName app = name) apps;
                                          appDomain =
                                            orElse (case appData of None \<Rightarrow> None
                                                    | Some a \<Rightarrow> domain a)
                                                   (name @ ''.'' @ defaultDomain w1)
                                      in case storeAppData
                                                \<lparr>appName = name, cid = vcid targetVersion,
                                                 version = versionTag, timestamp = clock w1,
                                                 deployed = True, domain = Some appDomain,
                                                 status = Running, isRollback = None\<rparr> w1 of
                                           (Inl e, w2) \<Rightarrow> (failure e, w2)
                                         | (Inr _, w2) \<Rightarrow> (succeeded, w2)))))))"

text \<open>\<^verbatim>\<open>deleteApplication(appName, force = false)\<close>: the application data found is only
  logged.\<close>

definition deleteApplication :: "string \<Rightarrow> bool \<Rightarrow> world \<Rightarrow> result \<times> world" where
  "deleteApplication name force w =
     (case initIpfs w of
        Inl e \<Rightarrow> (failure e, w)
      | Inr _ \<Rightarrow>
          if \<not> libp2p w then (failure ''LibP2P is not initialized'', w)
          else
            (case publish ''debros-app-actions'' (DeleteMsg name force (clock w)) w of
               (Inl e, w1) \<Rightarrow> (failure e, w1)
             | (Inr _, w1) \<Rightarrow>
                 (case getAllApps w1 of
                    Inl e \<Rightarrow> (failure e, w1)
                  | Inr apps \<Rightarrow> (succeeded, w1))))"

section \<open>The stop command\<close>

text \<open>
  \<^verbatim>\<open>stopCommand\<close> of the command line: \<open>forceOpt\<close> is \<^verbatim>\<open>options.force\<close> (absent when
  the flag is not given, so that the default \<^verbatim>\<open>false\<close> of \<open>stopApplication\<close> applies).
  The result is what the command writes to the console and the world it leaves.
  \<open>stopApplication\<close> catches every error itself, so the \<^verbatim>\<open>catch\<close> of the command is
  not reached.
\<close>

datatype logLine = Info string | Success string | Error string

definition stopCommand :: "string \<Rightarrow> bool option \<Rightarrow> world \<Rightarrow> logLine list \<times> world" where
  "stopCommand name forceOpt w =
     (let force = (case forceOpt of None \<Rightarrow> False | Some b \<Rightarrow> b);
          intro = (if \<not> force
                   then Info (''Stopping application '' @ name @ ''...'')
                   else Info (''Force stopping application '' @ name @ ''...''))
      in case stopApplication name force w of
           (r, w') \<Rightarrow>
             (if success r
              then [intro,
                    Success ([CHR 0x0A] @ ''Application '' @ name @ '' has been stopped.'' @
                             [CHR 0x0A] @ ''To restart it, use:'' @
                             [CHR 0x0A] @ ''  debros start '' @ name @ [CHR 0x0A])]
              else [intro,
                    Error (''Failed to stop application: '' @
                           (case message r of None \<Rightarrow> ''undefined'' | Some m \<Rightarrow> m))],
              w'))"

section \<open>The upload command\<close>

text \<open>\<^verbatim>\<open>subdomain.replace(/\.debros\.sol$/i, '')\<close>: a final \<^verbatim>\<open>.debros.sol\<close>, in any
  letter case, is cut off.\<close>

definition lowerCase :: "char \<Rightarrow> char" where
  "lowerCase ch =
     (case map_of (zip ''ABCDEFGHIJKLMNOPQRSTUVWXYZ'' ''abcdefghijklmnopqrstuvwxyz'') ch of
        None \<Rightarrow> ch
      | Some l \<Rightarrow> l)"

definition stripDebrosSol :: "string \<Rightarrow> string" where
  "stripDebrosSol s =
     (let n = length ''.debros.sol''
      in if n \<le> length s \<and> map lowerCase (drop (length s - n) s) = ''.debros.sol''
         then take (length s - n) s
         else s)"

datatype outcome = Exit1 | Uploaded

text \<open>
  \<^verbatim>\<open>uploadCommand\<close>, from the application name on. \<open>folderExists\<close> is the answer of
  \<^verbatim>\<open>fs.existsSync\<close>, \<open>name\<close> the resolved application name, \<open>tagOpt\<close> and
  \<open>domainOpt\<close> the options; \<open>built\<close> is the result of steps 1 to 4 (building and saving
  the image, uploading it, publishing the node list), which belong to external
  collaborators: the content identifier, or the error they throw. Every error ends the
  process with exit code 1.
\<close>

definition uploadCommand ::
  "bool \<Rightarrow> string \<Rightarrow> string option \<Rightarrow> string option \<Rightarrow> string + string \<Rightarrow> world
     \<Rightarrow> outcome \<times> world" where
  "uploadCommand folderExists name tagOpt domainOpt built w =
     (if \<not> folderExists then (Exit1, w)
      else
        (let tg = orElse tagOpt ''latest''
         in case checkAppNameAvailability name w of
              Inl e \<Rightarrow> (Exit1, w)
            | Inr isAppNameAvailable \<Rightarrow>
                if \<not> isAppNameAvailable then (Exit1, w)
                else
                  (let subdomain = orElse domainOpt name;
                       cleanSubdomain = stripDebrosSol subdomain;
                       dm = cleanSubdomain @ ''.'' @ defaultDomain w
                   in case built of
                        Inl e \<Rightarrow> (Exit1, w)
                      | Inr c \<Rightarrow>
                          (case announceDeployment c name (Some tg) (Some dm) w of
                             (Inl e, w1) \<Rightarrow> (Exit1, w1)
                           | (Inr _, w1) \<Rightarrow> (Uploaded, w1)))))"

section \<open>Histories\<close>

text \<open>
  A history is a sequence of command invocations of this CLI. Between two of them the
  world may move on its own: \<open>Outside others env\<close> lets other writers append the events
  \<open>others\<close> to the replicated feed and replaces the answers of the collaborators, the
  clock and the configuration by those of \<open>env\<close>.
\<close>

datatype command =
    Upload bool string "string option" "string option" "string + string"
  | Announce string string "string option" "string option"
  | Rollback string "string option" "string option" bool
  | Stop string bool
  | Start string "string option"
  | Delete string bool
  | Outside "AppData list" world

fun exec :: "command \<Rightarrow> world \<Rightarrow> world" where
  "exec (Upload ex n t d b) w = snd (uploadCommand ex n t d b w)"
| "exec (Announce c n v d) w = snd (announceDeployment c n v d w)"
| "exec (Rollback n v d f) w = snd (rollbackToVersion n v d f w)"
| "exec (Stop n f) w = snd (stopApplication n f w)"
| "exec (Start n v) w = snd (startApplication n v w)"
| "exec (Delete n f) w = snd (deleteApplication n f w)"
| "exec (Outside others env) w = env\<lparr>feed := feed w @ others, trace := trace w\<rparr>"

fun run :: "command list \<Rightarrow> world \<Rightarrow> world" where
  "run [] w = w"
| "run (c # cs) w = run cs (exec c w)"

section \<open>Order of effects\<close>

text \<open>
  The announcement bus has the topics \<^verbatim>\<open>debros-deploy\<close> and \<^verbatim>\<open>debros-app-actions\<close>.
  \<open>effectsOf w w'\<close> are the effects a command added when it took \<open>w\<close> to \<open>w'\<close>.
  \<open>appendBeforeBroadcast\<close>: every announcement has an append before it;
  \<open>broadcastBeforeAppend\<close>: every append has an announcement before it.
\<close>

definition isAnnouncement :: "effect \<Rightarrow> bool" where
  "isAnnouncement x =
     (case x of
        Published topic _ \<Rightarrow> topic = ''debros-deploy'' \<or> topic = ''debros-app-actions''
      | Added _ \<Rightarrow> False)"

definition isAppend :: "effect \<Rightarrow> bool" where
  "isAppend x = (case x of Published _ _ \<Rightarrow> False | Added _ \<Rightarrow> True)"

definition effectsOf :: "world \<Rightarrow> world \<Rightarrow> effect list" where
  "effectsOf w w' = drop (length (trace w)) (trace w')"

definition appendBeforeBroadcast :: "effect list \<Rightarrow> bool" where
  "appendBeforeBroadcast ext =
     (\<forall>j\<in>set [0..<length ext]. isAnnouncement (ext ! j) \<longrightarrow> list_ex isAppend (take j ext))"

definition broadcastBeforeAppend :: "effect list \<Rightarrow> bool" where
  "broadcastBeforeAppend ext =
     (\<forall>i\<in>set [0..<length ext]. isAppend (ext ! i) \<longrightarrow> list_ex isAnnouncement (take i ext))"

section \<open>Example worlds\<close>

text \<open>
  \<open>calm\<close> is a world with an empty feed in which every collaborator answers.
  \<open>blogWorld\<close> holds the history of the application "blog": version v1 written at
  instant 10 and version v2 written at instant 20, both claiming to be deployed.
\<close>

definition calm :: world where
  "calm = \<lparr>feed = [], trace = [], clock = 30, defaultDomain = ''debros.sol'', libp2p = True,
           ipfsErr = None, dbErr = None, addErr = None, pubErr = (\<lambda>_. None)\<rparr>"

definition blogV1 :: AppData where
  "blogV1 = \<lparr>appName = ''blog'', cid = ''cid1'', version = ''v1'', timestamp = 10,
             deployed = True, domain = Some ''blog.debros.sol'', status = Running,
             isRollback = None\<rparr>"

definition blogV2 :: AppData where
  "blogV2 = \<lparr>appName = ''blog'', cid = ''cid2'', version = ''v2'', timestamp = 20,
             deployed = True, domain = Some ''blog.debros.sol'', status = Running,
             isRollback = None\<rparr>"

definition blogWorld :: world where
  "blogWorld = calm\<lparr>feed := [blogV1, blogV2]\<rparr>"

text \<open>
  In \<open>noAppDataPeers\<close> publishing on \<^verbatim>\<open>debros-app-data\<close> throws, in
  \<open>noAnnouncePeers\<close> publishing on the two announcement topics throws; everything else
  is as in \<open>blogWorld\<close>.
\<close>

definition noAppDataPeers :: world where
  "noAppDataPeers =
     blogWorld\<lparr>pubErr := (\<lambda>topic. if topic = ''debros-app-data'' then Some ''no peers''
                                   else None)\<rparr>"

definition noAnnouncePeers :: world where
  "noAnnouncePeers =
     blogWorld\<lparr>pubErr := (\<lambda>topic. if topic = ''debros-deploy'' \<or> topic = ''debros-app-actions''
                                   then Some ''no peers'' else None)\<rparr>"

section \<open>The application map of \<^verbatim>\<open>getAllApps\<close>\<close>

lemma map_of_appMapStep:
  "map_of (appMapStep m e) a =
     (if appName e = a
      then (case map_of m a of
              None \<Rightarrow> Some e
            | Some cur \<Rightarrow> if timestamp cur < timestamp e then Some e else Some cur)
      else map_of m a)"
  by (auto simp: appMapStep_def update_conv' split: option.splits)

lemma distinct_appMapStep:
  "distinct (map fst m) \<Longrightarrow> distinct (map fst (appMapStep m e))"
  by (simp add: appMapStep_def distinct_update split: option.splits)

lemma set_update_subset: "set (AList.update k v al) \<subseteq> insert (k, v) (set al)"
  by (induction al) auto

lemma keys_appMapStep:
  assumes "\<forall>(k, v)\<in>set m. appName v = k"
  shows "\<forall>(k, v)\<in>set (appMapStep m e). appName v = k"
proof -
  have "set (AList.update (appName e) e m) \<subseteq> insert (appName e, e) (set m)"
    by (rule set_update_subset)
  with assms show ?thesis
    by (auto simp: appMapStep_def split: option.splits)
qed

lemma appMap_distinct: "distinct (map fst (foldl appMapStep [] (rev es)))"
  by (induction es) (simp_all add: distinct_appMapStep)

lemma appMap_keys: "\<forall>(k, v)\<in>set (foldl appMapStep [] (rev es)). appName v = k"
proof (induction es)
  case Nil
  then show ?case by simp
next
  case (Cons e es)
  from keys_appMapStep[OF Cons.IH] show ?case by simp
qed

lemma appMap_None:
  "map_of (foldl appMapStep [] (rev es)) a = None \<longleftrightarrow> a \<notin> appName ` set es"
proof (induction es)
  case Nil
  then show ?case by simp
next
  case (Cons e es)
  have "map_of (foldl appMapStep [] (rev (e # es))) a =
          map_of (appMapStep (foldl appMapStep [] (rev es)) e) a"
    by simp
  then show ?case using Cons.IH
    by (auto simp: map_of_appMapStep split: option.splits simp del: foldl_append rev.simps)
qed

lemma appMap_Some:
  "map_of (foldl appMapStep [] (rev es)) a = Some e \<Longrightarrow>
     \<exists>pre post. es = pre @ e # post \<and> appName e = a \<and>
       (\<forall>x\<in>set pre. appName x = a \<longrightarrow> timestamp x \<le> timestamp e) \<and>
       (\<forall>x\<in>set post. appName x = a \<longrightarrow> timestamp x < timestamp e)"
proof (induction es arbitrary: e)
  case Nil
  then show ?case by simp
next
  case (Cons x es)
  let ?m = "foldl appMapStep [] (rev es)"
  from Cons.prems have look: "map_of (appMapStep ?m x) a = Some e" by simp
  show ?case
  proof (cases "appName x = a")
    case False
    with look have "map_of ?m a = Some e" by (simp add: map_of_appMapStep)
    from Cons.IH[OF this] obtain pre post where
      d: "es = pre @ e # post" "appName e = a"
         "\<forall>y\<in>set pre. appName y = a \<longrightarrow> timestamp y \<le> timestamp e"
         "\<forall>y\<in>set post. appName y = a \<longrightarrow> timestamp y < timestamp e"
      by blast
    have "x # es = (x # pre) @ e # post" using d(1) by simp
    moreover have "\<forall>y\<in>set (x # pre). appName y = a \<longrightarrow> timestamp y \<le> timestamp e"
      using d(3) False by simp
    ultimately show ?thesis using d(2,4) by blast
  next
    case True
    show ?thesis
    proof (cases "map_of ?m a")
      case None
      with look True have ex: "e = x" by (simp add: map_of_appMapStep)
      from None have "a \<notin> appName ` set es" by (simp add: appMap_None)
      then have "\<forall>y\<in>set es. appName y = a \<longrightarrow> timestamp y < timestamp e" by auto
      moreover have "x # es = [] @ e # es" using ex by simp
      ultimately show ?thesis using True ex by (metis empty_iff list.set(1))
    next
      case (Some cur)
      from Cons.IH[OF Some] obtain pre post where
        d: "es = pre @ cur # post" "appName cur = a"
           "\<forall>y\<in>set pre. appName y = a \<longrightarrow> timestamp y \<le> timestamp cur"
           "\<forall>y\<in>set post. appName y = a \<longrightarrow> timestamp y < timestamp cur"
        by blast
      show ?thesis
      proof (cases "timestamp cur < timestamp x")
        case newer: True
        with look True Some have ex: "e = x" by (simp add: map_of_appMapStep)
        have "\<forall>y\<in>set es. appName y = a \<longrightarrow> timestamp y < timestamp e"
          using d newer ex by fastforce
        moreover have "x # es = [] @ e # es" using ex by simp
        ultimately show ?thesis using True ex by (metis empty_iff list.set(1))
      next
        case older: False
        with look True Some have ec: "e = cur" by (simp add: map_of_appMapStep)
        have "x # es = (x # pre) @ e # post" using d(1) ec by simp
        moreover have "\<forall>y\<in>set (x # pre). appName y = a \<longrightarrow> timestamp y \<le> timestamp e"
          using d(3) older ec by auto
        ultimately show ?thesis using d(2,4) ec by blast
      qed
    qed
  qed
qed

lemma filter_values_single:
  "distinct (map fst m) \<Longrightarrow> \<forall>(k, v)\<in>set m. f v = k \<Longrightarrow> map_of m a = Some e \<Longrightarrow>
     filter (\<lambda>x. f x = a) (map snd m) = [e]"
proof (induction m)
  case Nil
  then show ?case by simp
next
  case (Cons p m)
  obtain k v where p: "p = (k, v)" by (cases p)
  show ?case
  proof (cases "k = a")
    case True
    with Cons.prems p have ev: "v = e" "f v = a" by auto
    have "a \<notin> fst ` set m" using Cons.prems(1) p True by auto
    moreover have "\<forall>(k', v')\<in>set m. f v' = k'" using Cons.prems(2) by simp
    ultimately have "\<forall>q\<in>set m. f (snd q) \<noteq> a"
      by force
    then have "filter (\<lambda>x. f x = a) (map snd m) = []"
      by (simp add: filter_empty_conv)
    with ev p show ?thesis by simp
  next
    case False
    with Cons.prems p have "f v \<noteq> a" "map_of m a = Some e" by auto
    moreover have "distinct (map fst m)" "\<forall>(k', v')\<in>set m. f v' = k'"
      using Cons.prems by simp_all
    ultimately show ?thesis using Cons.IH p by simp
  qed
qed

lemma find_of_filter_single: "filter P xs = [e] \<Longrightarrow> find P xs = Some e"
  by (induction xs) (auto split: if_splits)

section \<open>The deployed marker of \<^verbatim>\<open>getAppVersions\<close>\<close>

lemma findIndex_None: "findIndex P xs = None \<longleftrightarrow> (\<forall>x\<in>set xs. \<not> P x)"
  by (induction xs) auto

lemma findIndex_Some:
  "findIndex P xs = Some i \<Longrightarrow> i < length xs \<and> P (xs ! i) \<and> (\<forall>j<i. \<not> P (xs ! j))"
proof (induction xs arbitrary: i)
  case Nil
  then show ?case by simp
next
  case (Cons x xs)
  show ?case
  proof (cases "P x")
    case True
    with Cons.prems show ?thesis by simp
  next
    case False
    with Cons.prems obtain k where k: "findIndex P xs = Some k" "i = Suc k" by auto
    from Cons.IH[OF k(1)] False k(2) show ?thesis
      by (auto simp: less_Suc_eq_0_disj)
  qed
qed

lemma filter_update_single:
  assumes "\<forall>x\<in>set xs. \<not> P x" and "P y" and "i < length xs"
  shows "filter P (xs[i := y]) = [y]"
proof -
  have "xs[i := y] = take i xs @ y # drop (Suc i) xs"
    using assms(3) by (rule upd_conv_take_nth_drop)
  moreover have "filter P (take i xs) = []"
    using assms(1) by (auto simp: filter_empty_conv dest: in_set_takeD)
  moreover have "filter P (drop (Suc i) xs) = []"
    using assms(1) by (auto simp: filter_empty_conv dest: in_set_dropD)
  ultimately show ?thesis using assms(2) by simp
qed

lemma markLatestDeployed_filter:
  "filter vdeployed (markLatestDeployed vs) =
     (case findIndex vdeployed vs of None \<Rightarrow> [] | Some i \<Rightarrow> [vs ! i])"
proof (cases "findIndex vdeployed vs")
  case None
  moreover from None have "filter vdeployed vs = []"
    by (simp add: findIndex_None filter_empty_conv)
  ultimately show ?thesis
    by (simp add: markLatestDeployed_def)
next
  case (Some i)
  from findIndex_Some[OF Some] have i: "i < length vs" "vdeployed (vs ! i)" by auto
  let ?c = "map (\<lambda>v. v\<lparr>vdeployed := False\<rparr>) vs"
  have "filter vdeployed (?c[i := (?c ! i)\<lparr>vdeployed := True\<rparr>]) = [(?c ! i)\<lparr>vdeployed := True\<rparr>]"
    by (rule filter_update_single) (use i in auto)
  moreover have "(?c ! i)\<lparr>vdeployed := True\<rparr> = vs ! i"
    using i by simp
  ultimately show ?thesis using Some by (simp add: markLatestDeployed_def Let_def)
qed

lemma markLatestDeployed_at_most_one:
  "length (filter vdeployed (markLatestDeployed vs)) \<le> 1"
  by (simp add: markLatestDeployed_filter split: option.split)

section \<open>Order and content of the version list\<close>

lemma markLatestDeployed_map:
  assumes "\<And>v b. f (v\<lparr>vdeployed := b\<rparr>) = f v"
  shows "map f (markLatestDeployed xs) = map f xs"
proof (cases "findIndex vdeployed xs")
  case None
  then show ?thesis by (simp add: markLatestDeployed_def)
next
  case (Some i)
  from findIndex_Some[OF Some] have i: "i < length xs" by simp
  let ?c = "map (\<lambda>v. v\<lparr>vdeployed := False\<rparr>) xs"
  have c: "map f ?c = map f xs" by (simp add: assms)
  have "map f (?c[i := (?c ! i)\<lparr>vdeployed := True\<rparr>]) = (map f ?c)[i := f ((?c ! i)\<lparr>vdeployed := True\<rparr>)]"
    by (rule map_update)
  also have "f ((?c ! i)\<lparr>vdeployed := True\<rparr>) = map f xs ! i"
    using i by (simp add: assms)
  also have "(map f ?c)[i := map f xs ! i] = map f xs"
    unfolding c by (rule list_update_id)
  finally show ?thesis using Some by (simp add: markLatestDeployed_def Let_def)
qed

lemma newestFirst_sorted:
  "sorted_wrt (\<lambda>x y. vtimestamp y \<le> vtimestamp x) (newestFirst xs)"
proof -
  have "sorted (map (\<lambda>v. - vtimestamp v) (newestFirst xs))"
    unfolding newestFirst_def by (rule sorted_sort_key)
  then show ?thesis by (simp add: sorted_map)
qed

lemma markLatestDeployed_sorted:
  assumes "sorted_wrt (\<lambda>x y. vtimestamp y \<le> vtimestamp x) xs"
  shows "sorted_wrt (\<lambda>x y. vtimestamp y \<le> vtimestamp x) (markLatestDeployed xs)"
proof -
  have "map vtimestamp (markLatestDeployed xs) = map vtimestamp xs"
    by (rule markLatestDeployed_map) simp
  moreover have "sorted_wrt (\<lambda>x y. y \<le> x) (map vtimestamp xs)"
    using assms by (simp add: sorted_wrt_map)
  ultimately have "sorted_wrt (\<lambda>x y. y \<le> x) (map vtimestamp (markLatestDeployed xs))"
    by simp
  then show ?thesis by (simp add: sorted_wrt_map)
qed

lemma first_deployed_is_latest:
  assumes srt: "sorted_wrt (\<lambda>x y. vtimestamp y \<le> vtimestamp x) xs"
    and fi: "findIndex vdeployed xs = Some i"
    and x: "x \<in> set xs" "vdeployed x"
  shows "vtimestamp x \<le> vtimestamp (xs ! i)"
proof -
  from findIndex_Some[OF fi] have i: "i < length xs" "\<forall>j<i. \<not> vdeployed (xs ! j)" by auto
  from x(1) obtain j where j: "j < length xs" "xs ! j = x" by (auto simp: in_set_conv_nth)
  with x(2) i(2) have "i \<le> j" by (metis not_le_imp_less)
  show ?thesis
  proof (cases "i = j")
    case True
    with j show ?thesis by simp
  next
    case False
    with \<open>i \<le> j\<close> have "i < j" by simp
    with srt j(1) have "vtimestamp (xs ! j) \<le> vtimestamp (xs ! i)"
      by (simp add: sorted_wrt_iff_nth_less)
    with j show ?thesis by simp
  qed
qed

lemma getAppVersions_returns:
  assumes "ipfsErr w = None" and "dbErr w = None"
  shows "getAppVersions name w =
           Inr (markLatestDeployed (newestFirst
                  (map (\<lambda>d. \<lparr>tag = version d, vcid = cid d, vtimestamp = timestamp d,
                              vdeployed = deployed d\<rparr>)
                       (filter (\<lambda>d. appName d = name) (feed w)))))"
  using assms by (simp add: getAppVersions_def getApplicationDataDB_def initIpfs_def)

section \<open>Steps of the commands\<close>

lemma initIpfs_simps:
  "ipfsErr w = None \<Longrightarrow> initIpfs w = Inr ()"
  "ipfsErr w = Some e \<Longrightarrow> initIpfs w = Inl e"
  by (simp_all add: initIpfs_def)

lemma publish_simps:
  "pubErr w topic = None \<Longrightarrow>
     publish topic msg w = (Inr (), w\<lparr>trace := trace w @ [Published topic msg]\<rparr>)"
  "pubErr w topic = Some e \<Longrightarrow> publish topic msg w = (Inl e, w)"
  by (simp_all add: publish_def)

lemma getApplicationDataDB_trace [simp]:
  "getApplicationDataDB (w\<lparr>trace := t\<rparr>) = getApplicationDataDB w"
  by (simp add: getApplicationDataDB_def initIpfs_def split: option.splits)

lemma getAllApps_trace [simp]: "getAllApps (w\<lparr>trace := t\<rparr>) = getAllApps w"
  by (simp add: getAllApps_def)

lemma getAppVersions_trace [simp]:
  "getAppVersions name (w\<lparr>trace := t\<rparr>) = getAppVersions name w"
  by (simp add: getAppVersions_def)

lemma getAppVersions_Inr_env:
  "getAppVersions name w = Inr vs \<Longrightarrow> ipfsErr w = None \<and> dbErr w = None"
  by (auto simp: getAppVersions_def getApplicationDataDB_def initIpfs_def
      split: option.splits sum.splits)

lemma storeAppData_ok:
  assumes "ipfsErr w = None" "dbErr w = None" "addErr w = None" "libp2p w"
    "pubErr w ''debros-app-data'' = None"
  shows "storeAppData a w =
           (Inr True, w\<lparr>feed := feed w @ [a],
                        trace := trace w @ [Added a,
                          Published ''debros-app-data'' (AppDataUpdateMsg a (clock w))]\<rparr>)"
  using assms
  by (simp add: storeAppData_def getApplicationDataDB_def initIpfs_def publish_def Let_def)

lemma storeAppData_outcomes:
  "(\<exists>e. storeAppData a w = (Inl e, w)) \<or>
   (\<exists>e. storeAppData a w = (Inl e, w\<lparr>feed := feed w @ [a], trace := trace w @ [Added a]\<rparr>) \<and>
        libp2p w \<and> pubErr w ''debros-app-data'' = Some e) \<or>
   (storeAppData a w = (Inr True, w\<lparr>feed := feed w @ [a], trace := trace w @ [Added a]\<rparr>) \<and>
        \<not> libp2p w) \<or>
   (storeAppData a w =
      (Inr True, w\<lparr>feed := feed w @ [a],
                   trace := trace w @ [Added a,
                     Published ''debros-app-data'' (AppDataUpdateMsg a (clock w))]\<rparr>) \<and>
        libp2p w \<and> pubErr w ''debros-app-data'' = None)"
  by (auto simp: storeAppData_def getApplicationDataDB_def initIpfs_def publish_def Let_def
      split: option.splits sum.splits)

lemma newestFirst_first_max:
  assumes "xs \<noteq> []"
  shows "newestFirst xs ! 0 \<in> set xs \<and>
         (\<forall>v\<in>set xs. vtimestamp v \<le> vtimestamp (newestFirst xs ! 0))"
proof -
  have len: "length (newestFirst xs) = length xs" and st: "set (newestFirst xs) = set xs"
    by (simp_all add: newestFirst_def)
  from assms len obtain y ys where ys: "newestFirst xs = y # ys"
    by (cases "newestFirst xs") auto
  have "sorted_wrt (\<lambda>x y. vtimestamp y \<le> vtimestamp x) (y # ys)"
    using newestFirst_sorted[of xs] ys by simp
  then have "\<forall>v\<in>set (y # ys). vtimestamp v \<le> vtimestamp y" by auto
  with st ys show ?thesis by auto
qed

lemmas example_defs = blogWorld_def calm_def blogV1_def blogV2_def

lemmas command_defs = initIpfs_def getApplicationDataDB_def publish_def storeAppData_def
  getAppVersions_def getAllApps_def appMapStep_def newestFirst_def markLatestDeployed_def
  truthy_def orElse_def failure_def succeeded_def Let_def

section \<open>Case analysis of the commands\<close>

lemma store_tail:
  assumes run: "res = (case storeAppData ev w1 of
                         (Inl e, w2) \<Rightarrow> (F e, w2)
                       | (Inr x, w2) \<Rightarrow> (G, w2))"
    and w1: "w1 = w\<lparr>trace := trace w @ [p]\<rparr>"
    and lp: "libp2p w"
  shows "\<exists>rest. trace (snd res) = trace w @ p # rest"
    and "feed (snd res) = feed w \<or> feed (snd res) = feed w @ [ev]"
    and "pubErr w ''debros-app-data'' = Some e \<Longrightarrow> feed (snd res) \<noteq> feed w \<Longrightarrow> fst res = F e"
    and "(\<exists>e. fst res = F e) \<or> fst res = G"
  using storeAppData_outcomes[of ev w1] lp by (auto simp: run w1)

lemma rollbackToVersion_cases:
  obtains (early) m where "rollbackToVersion name vt d f w = (failure m, w)"
  | (stored) t :: AppVersion where "ipfsErr w = None" "libp2p w" "pubErr w ''debros-deploy'' = None"
      "rollbackToVersion name vt d f w =
         (case storeAppData
                 \<lparr>appName = name, cid = vcid t, version = tag t, timestamp = clock w,
                  deployed = True, domain = Some (orElse d (name @ ''.'' @ defaultDomain w)),
                  status = Running, isRollback = None\<rparr>
                 (w\<lparr>trace := trace w @
                      [Published ''debros-deploy''
                         (DeploymentMsg (vcid t) name (tag t)
                            (orElse d (name @ ''.'' @ defaultDomain w)) (Some True) (clock w))]\<rparr>) of
            (Inl e, w2) \<Rightarrow> (failure e, w2)
          | (Inr _, w2) \<Rightarrow>
              (\<lparr>success = True, message = None, rversion = Some (tag t),
                rcid = Some (vcid t)\<rparr>, w2))"
proof (cases "ipfsErr w")
  case (Some e)
  then show ?thesis by (intro early) (simp add: rollbackToVersion_def initIpfs_def)
next
  case None
  note ipfs = initIpfs_simps(1)[OF None]
  show ?thesis
  proof (cases "libp2p w")
    case False
    with ipfs show ?thesis by (intro early) (simp add: rollbackToVersion_def)
  next
    case True
    note lp = this
    show ?thesis
    proof (cases "getAppVersions name w")
      case (Inl e)
      with ipfs lp show ?thesis by (intro early) (simp add: rollbackToVersion_def)
    next
      case (Inr vs)
      note vs = this
      let ?res = "case truthy vt of
                    Some vt' \<Rightarrow>
                      (case find (\<lambda>v. tag v = vt') vs of
                         None \<Rightarrow> Inl (failure (''Version '' @ vt' @ '' not found''))
                       | Some t \<Rightarrow> Inr t)
                  | None \<Rightarrow>
                      (let otherVersions = newestFirst (filter (\<lambda>v. \<not> vdeployed v) vs)
                       in if length otherVersions = 0
                          then Inl (failure ''No previous versions found to rollback to'')
                          else Inr (otherVersions ! 0))"
      show ?thesis
      proof (cases "length vs = 0")
        case True
        with ipfs lp vs show ?thesis by (intro early) (simp add: rollbackToVersion_def)
      next
        case False
        note ne = this
        show ?thesis
        proof (cases ?res)
          case (Inl r)
          then obtain m where "r = failure m"
            by (auto simp: Let_def split: option.splits if_splits)
          with Inl ipfs lp vs ne show ?thesis
            by (intro early[of m]) (simp add: rollbackToVersion_def)
        next
          case (Inr t)
          note t = this
          show ?thesis
          proof (cases "pubErr w ''debros-deploy''")
            case (Some e)
            with t ipfs lp vs ne show ?thesis
              by (intro early[of e]) (simp add: rollbackToVersion_def publish_simps Let_def)
          next
            case None
            with t ipfs lp vs ne show ?thesis
              by (intro stored[of t] None lp \<open>ipfsErr w = None\<close>)
                (simp add: rollbackToVersion_def publish_simps Let_def)
          qed
        qed
      qed
    qed
  qed
qed

lemma announceDeployment_cases:
  obtains (early) m where "announceDeployment c name v d w = (Inl m, w)"
  | (stored) ver dm where "ipfsErr w = None" "libp2p w" "pubErr w ''debros-deploy'' = None"
      "announceDeployment c name v d w =
         (case storeAppData
                 \<lparr>appName = name, cid = c, version = ver, timestamp = clock w,
                  deployed = True, domain = Some dm, status = Running, isRollback = None\<rparr>
                 (w\<lparr>trace := trace w @
                      [Published ''debros-deploy''
                         (DeploymentMsg c name ver dm None (clock w))]\<rparr>) of
            (Inl e, w2) \<Rightarrow> (Inl e, w2)
          | (Inr _, w2) \<Rightarrow> (Inr True, w2))"
proof (cases "ipfsErr w")
  case (Some e)
  then show ?thesis by (intro early) (simp add: announceDeployment_def initIpfs_def)
next
  case None
  note ipfs = initIpfs_simps(1)[OF None]
  show ?thesis
  proof (cases "libp2p w")
    case False
    with ipfs show ?thesis by (intro early) (simp add: announceDeployment_def)
  next
    case True
    note lp = this
    show ?thesis
    proof (cases "pubErr w ''debros-deploy''")
      case (Some e)
      with ipfs lp show ?thesis
        by (intro early[of e]) (simp add: announceDeployment_def publish_simps Let_def)
    next
      case None
      with ipfs lp show ?thesis
        by (intro stored None lp \<open>ipfsErr w = None\<close>)
          (simp add: announceDeployment_def publish_simps Let_def)
    qed
  qed
qed

lemma stopApplication_cases:
  obtains (early) m where "stopApplication name f w = (failure m, w)"
  | (published) r where "pubErr w ''debros-app-actions'' = None"
      "stopApplication name f w =
         (r, w\<lparr>trace := trace w @
                 [Published ''debros-app-actions'' (StopMsg name f (clock w))]\<rparr>)"
  | (stored) appData where "ipfsErr w = None" "libp2p w"
      "pubErr w ''debros-app-actions'' = None"
      "stopApplication name f w =
         (case storeAppData (appData\<lparr>status := Stopped, timestamp := clock w\<rparr>)
                 (w\<lparr>trace := trace w @
                      [Published ''debros-app-actions'' (StopMsg name f (clock w))]\<rparr>) of
            (Inl e, w2) \<Rightarrow> (failure e, w2)
          | (Inr _, w2) \<Rightarrow> (succeeded, w2))"
proof (cases "ipfsErr w")
  case (Some e)
  then show ?thesis by (intro early) (simp add: stopApplication_def initIpfs_def)
next
  case None
  note ipfs = initIpfs_simps(1)[OF None]
  show ?thesis
  proof (cases "libp2p w")
    case False
    with ipfs show ?thesis by (intro early) (simp add: stopApplication_def)
  next
    case True
    note lp = this
    show ?thesis
    proof (cases "pubErr w ''debros-app-actions''")
      case (Some e)
      with ipfs lp show ?thesis
        by (intro early[of e]) (simp add: stopApplication_def publish_simps)
    next
      case None
      note pub = this
      show ?thesis
      proof (cases "getAllApps w")
        case (Inl e)
        with ipfs lp pub show ?thesis
          by (intro published[of "failure e"] pub)
            (simp add: stopApplication_def publish_simps)
      next
        case (Inr apps)
        note apps = this
        show ?thesis
        proof (cases "find (\<lambda>app. appName app = name) apps")
          case None
          with ipfs lp pub apps show ?thesis
            by (intro published[of succeeded] pub)
              (simp add: stopApplication_def publish_simps)
        next
          case (Some appData)
          with ipfs lp pub apps show ?thesis
            by (intro stored[of appData] pub lp \<open>ipfsErr w = None\<close>)
              (simp add: stopApplication_def publish_simps)
        qed
      qed
    qed
  qed
qed

lemma startApplication_cases:
  obtains (early) m where "startApplication name v w = (failure m, w)"
  | (published) r and t :: AppVersion and vt where "pubErr w ''debros-app-actions'' = None"
      "startApplication name v w =
         (r, w\<lparr>trace := trace w @
                 [Published ''debros-app-actions'' (StartMsg name vt (vcid t) (clock w))]\<rparr>)"
      "\<not> success r"
  | (stored) t :: AppVersion and vt dm where "ipfsErr w = None" "libp2p w"
      "pubErr w ''debros-app-actions'' = None"
      "startApplication name v w =
         (case storeAppData
                 \<lparr>appName = name, cid = vcid t, version = vt, timestamp = clock w,
                  deployed = True, domain = Some dm, status = Running, isRollback = None\<rparr>
                 (w\<lparr>trace := trace w @
                      [Published ''debros-app-actions''
                         (StartMsg name vt (vcid t) (clock w))]\<rparr>) of
            (Inl e, w2) \<Rightarrow> (failure e, w2)
          | (Inr _, w2) \<Rightarrow> (succeeded, w2))"
proof (cases "ipfsErr w")
  case (Some e)
  then show ?thesis by (intro early) (simp add: startApplication_def initIpfs_def)
next
  case None
  note ipfs = initIpfs_simps(1)[OF None]
  let ?vt = "case v of None \<Rightarrow> ''latest'' | Some x \<Rightarrow> x"
  show ?thesis
  proof (cases "libp2p w")
    case False
    with ipfs show ?thesis by (intro early) (simp add: startApplication_def)
  next
    case True
    note lp = this
    show ?thesis
    proof (cases "getAppVersions name w")
      case (Inl e)
      with ipfs lp show ?thesis by (intro early) (simp add: startApplication_def)
    next
      case (Inr vs)
      note vs = this
      show ?thesis
      proof (cases "length vs = 0")
        case True
        with ipfs lp vs show ?thesis by (intro early) (simp add: startApplication_def)
      next
        case False
        note ne = this
        show ?thesis
        proof (cases "find (\<lambda>x. tag x = ?vt) vs")
          case None
          with ipfs lp vs ne show ?thesis
            by (intro early) (simp add: startApplication_def)
        next
          case (Some t)
          note t = this
          show ?thesis
          proof (cases "pubErr w ''debros-app-actions''")
            case (Some e)
            with t ipfs lp vs ne show ?thesis
              by (intro early[of e]) (simp add: startApplication_def publish_simps)
          next
            case None
            note pub = this
            show ?thesis
            proof (cases "getAllApps w")
              case (Inl e)
              with t ipfs lp vs ne pub show ?thesis
                by (intro published[of "failure e" ?vt t] pub)
                  (simp_all add: startApplication_def publish_simps failure_def)
            next
              case (Inr apps)
              with t ipfs lp vs ne pub show ?thesis
                by (intro stored[of t ?vt] pub lp \<open>ipfsErr w = None\<close>)
                  (simp add: startApplication_def publish_simps Let_def)
            qed
          qed
        qed
      qed
    qed
  qed
qed

lemma deploy_is_announcement: "isAnnouncement (Published ''debros-deploy'' m)"
  by (simp add: isAnnouncement_def)

lemma action_is_announcement: "isAnnouncement (Published ''debros-app-actions'' m)"
  by (simp add: isAnnouncement_def)

lemma rollbackToVersion_summary:
  assumes "rollbackToVersion name vt d f w = (r, w')"
  shows "(trace w' = trace w \<or> (\<exists>x rest. trace w' = trace w @ x # rest \<and> isAnnouncement x)) \<and>
         (feed w' = feed w \<or> (\<exists>ev. feed w' = feed w @ [ev])) \<and>
         (pubErr w ''debros-deploy'' = Some e \<longrightarrow> \<not> success r \<and> feed w' = feed w) \<and>
         (pubErr w ''debros-app-data'' = Some e \<longrightarrow> feed w' \<noteq> feed w \<longrightarrow> r = failure e)"
proof (cases rule: rollbackToVersion_cases[of name vt d f w])
  case (early m)
  with assms show ?thesis by (auto simp: failure_def)
next
  case (stored t)
  note tail = store_tail[OF stored(4) refl stored(2)]
  from tail(1) assms obtain rest where
    "trace w' = trace w @ Published ''debros-deploy''
       (DeploymentMsg (vcid t) name (tag t) (orElse d (name @ ''.'' @ defaultDomain w))
          (Some True) (clock w)) # rest"
    by auto
  then have "\<exists>x rest. trace w' = trace w @ x # rest \<and> isAnnouncement x"
    using deploy_is_announcement by blast
  then have tr: "trace w' = trace w \<or>
      (\<exists>x rest. trace w' = trace w @ x # rest \<and> isAnnouncement x)" ..
  from tail(2) assms have fd: "feed w' = feed w \<or> (\<exists>ev. feed w' = feed w @ [ev])"
    by auto
  from tail(3) assms have sp: "pubErr w ''debros-app-data'' = Some e \<longrightarrow>
      feed w' \<noteq> feed w \<longrightarrow> r = failure e"
    by auto
  from stored(3) have ap: "pubErr w ''debros-deploy'' = Some e \<longrightarrow> \<not> success r \<and> feed w' = feed w"
    by simp
  from tr fd ap sp show ?thesis by (intro conjI)
qed

lemma announceDeployment_summary:
  assumes "announceDeployment c name v d w = (r, w')"
  shows "(trace w' = trace w \<or> (\<exists>x rest. trace w' = trace w @ x # rest \<and> isAnnouncement x)) \<and>
         (feed w' = feed w \<or> (\<exists>ev. feed w' = feed w @ [ev])) \<and>
         (pubErr w ''debros-deploy'' = Some e \<longrightarrow> (\<exists>m. r = Inl m) \<and> feed w' = feed w) \<and>
         (pubErr w ''debros-app-data'' = Some e \<longrightarrow> feed w' \<noteq> feed w \<longrightarrow> r = Inl e)"
proof (cases rule: announceDeployment_cases[of c name v d w])
  case (early m)
  with assms show ?thesis by auto
next
  case (stored ver dm)
  note tail = store_tail[OF stored(4) refl stored(2)]
  from tail(1) assms obtain rest where
    "trace w' = trace w @ Published ''debros-deploy''
       (DeploymentMsg c name ver dm None (clock w)) # rest"
    by auto
  then have "\<exists>x rest. trace w' = trace w @ x # rest \<and> isAnnouncement x"
    using deploy_is_announcement by blast
  then have tr: "trace w' = trace w \<or>
      (\<exists>x rest. trace w' = trace w @ x # rest \<and> isAnnouncement x)" ..
  from tail(2) assms have fd: "feed w' = feed w \<or> (\<exists>ev. feed w' = feed w @ [ev])"
    by auto
  from tail(3) assms have sp: "pubErr w ''debros-app-data'' = Some e \<longrightarrow>
      feed w' \<noteq> feed w \<longrightarrow> r = Inl e"
    by auto
  from stored(3) have ap: "pubErr w ''debros-deploy'' = Some e \<longrightarrow> (\<exists>m. r = Inl m) \<and> feed w' = feed w"
    by simp
  from tr fd ap sp show ?thesis by (intro conjI)
qed

lemma stopApplication_summary:
  assumes "stopApplication name f w = (r, w')"
  shows "(trace w' = trace w \<or> (\<exists>x rest. trace w' = trace w @ x # rest \<and> isAnnouncement x)) \<and>
         (feed w' = feed w \<or> (\<exists>ev. feed w' = feed w @ [ev])) \<and>
         (pubErr w ''debros-app-actions'' = Some e \<longrightarrow> \<not> success r \<and> feed w' = feed w) \<and>
         (pubErr w ''debros-app-data'' = Some e \<longrightarrow> feed w' \<noteq> feed w \<longrightarrow> r = failure e)"
proof (cases rule: stopApplication_cases[of name f w])
  case (early m)
  with assms show ?thesis by (auto simp: failure_def)
next
  case (published r')
  have "\<exists>x rest. trace w' = trace w @ x # rest \<and> isAnnouncement x"
    using published(2) assms action_is_announcement by auto
  with published assms show ?thesis by auto
next
  case (stored appData)
  note tail = store_tail[OF stored(4) refl stored(2)]
  from tail(1) assms obtain rest where
    "trace w' = trace w @ Published ''debros-app-actions'' (StopMsg name f (clock w)) # rest"
    by auto
  then have "\<exists>x rest. trace w' = trace w @ x # rest \<and> isAnnouncement x"
    using action_is_announcement by blast
  then have tr: "trace w' = trace w \<or>
      (\<exists>x rest. trace w' = trace w @ x # rest \<and> isAnnouncement x)" ..
  from tail(2) assms have fd: "feed w' = feed w \<or> (\<exists>ev. feed w' = feed w @ [ev])"
    by auto
  from tail(3) assms have sp: "pubErr w ''debros-app-data'' = Some e \<longrightarrow>
      feed w' \<noteq> feed w \<longrightarrow> r = failure e"
    by auto
  from stored(3) have ap: "pubErr w ''debros-app-actions'' = Some e \<longrightarrow> \<not> success r \<and> feed w' = feed w"
    by simp
  from tr fd ap sp show ?thesis by (intro conjI)
qed

lemma startApplication_summary:
  assumes "startApplication name v w = (r, w')"
  shows "(trace w' = trace w \<or> (\<exists>x rest. trace w' = trace w @ x # rest \<and> isAnnouncement x)) \<and>
         (feed w' = feed w \<or> (\<exists>ev. feed w' = feed w @ [ev])) \<and>
         (pubErr w ''debros-app-actions'' = Some e \<longrightarrow> \<not> success r \<and> feed w' = feed w) \<and>
         (pubErr w ''debros-app-data'' = Some e \<longrightarrow> feed w' \<noteq> feed w \<longrightarrow> r = failure e)"
proof (cases rule: startApplication_cases[of name v w])
  case (early m)
  with assms show ?thesis by (auto simp: failure_def)
next
  case (published r' t vt)
  have "\<exists>x rest. trace w' = trace w @ x # rest \<and> isAnnouncement x"
    using published(2) assms action_is_announcement by auto
  with published assms show ?thesis by auto
next
  case (stored t vt dm)
  note tail = store_tail[OF stored(4) refl stored(2)]
  from tail(1) assms obtain rest where
    "trace w' = trace w @ Published ''debros-app-actions''
       (StartMsg name vt (vcid t) (clock w)) # rest"
    by auto
  then have "\<exists>x rest. trace w' = trace w @ x # rest \<and> isAnnouncement x"
    using action_is_announcement by blast
  then have tr: "trace w' = trace w \<or>
      (\<exists>x rest. trace w' = trace w @ x # rest \<and> isAnnouncement x)" ..
  from tail(2) assms have fd: "feed w' = feed w \<or> (\<exists>ev. feed w' = feed w @ [ev])"
    by auto
  from tail(3) assms have sp: "pubErr w ''debros-app-data'' = Some e \<longrightarrow>
      feed w' \<noteq> feed w \<longrightarrow> r = failure e"
    by auto
  from stored(3) have ap: "pubErr w ''debros-app-actions'' = Some e \<longrightarrow> \<not> success r \<and> feed w' = feed w"
    by simp
  from tr fd ap sp show ?thesis by (intro conjI)
qed

lemma isAnnouncement_not_isAppend: "isAnnouncement x \<Longrightarrow> \<not> isAppend x"
  by (cases x) (simp_all add: isAnnouncement_def isAppend_def)

lemma broadcastBeforeAppend_Nil: "broadcastBeforeAppend []"
  by (simp add: broadcastBeforeAppend_def)

lemma broadcastBeforeAppend_Cons:
  assumes "isAnnouncement x"
  shows "broadcastBeforeAppend (x # rest)"
  unfolding broadcastBeforeAppend_def
proof (intro ballI impI)
  fix i
  assume i: "i \<in> set [0..<length (x # rest)]" and ap: "isAppend ((x # rest) ! i)"
  show "list_ex isAnnouncement (take i (x # rest))"
  proof (cases i)
    case 0
    with ap assms show ?thesis by (simp add: isAnnouncement_not_isAppend)
  next
    case (Suc k)
    with assms show ?thesis by simp
  qed
qed

lemma broadcastBeforeAppend_effects:
  assumes "trace w' = trace w \<or> (\<exists>x rest. trace w' = trace w @ x # rest \<and> isAnnouncement x)"
  shows "broadcastBeforeAppend (effectsOf w w') \<and> take (length (trace w)) (trace w') = trace w"
  using assms
  by (auto simp: effectsOf_def broadcastBeforeAppend_Nil broadcastBeforeAppend_Cons)

lemma store_tail_shape:
  assumes run: "res = (case storeAppData ev w1 of
                         (Inl e, w2) \<Rightarrow> (F e, w2)
                       | (Inr x, w2) \<Rightarrow> (G, w2))"
    and w1: "w1 = w\<lparr>trace := trace w @ [p]\<rparr>"
    and lp: "libp2p w"
  shows "\<exists>rest. trace (snd res) = trace w @ p # rest \<and>
           prefix rest [Added ev, Published ''debros-app-data'' (AppDataUpdateMsg ev (clock w))]"
  using storeAppData_outcomes[of ev w1] lp by (auto simp: run w1)

lemma effects_shape_none:
  assumes "trace w' = trace w"
  shows "\<exists>a ev. isAnnouncement a \<and>
           prefix (effectsOf w w')
             [a, Added ev, Published ''debros-app-data'' (AppDataUpdateMsg ev (clock w))]"
proof -
  have "effectsOf w w' = []" using assms by (simp add: effectsOf_def)
  moreover have "isAnnouncement (Published ''debros-deploy'' (DeleteMsg [] False 0))"
    by (rule deploy_is_announcement)
  ultimately show ?thesis by (metis Nil_prefix)
qed

lemma effects_shape_some:
  assumes "trace w' = trace w @ p # rest" and "isAnnouncement p"
    and "prefix rest [Added ev, Published ''debros-app-data'' (AppDataUpdateMsg ev (clock w))]"
  shows "\<exists>a ev. isAnnouncement a \<and>
           prefix (effectsOf w w')
             [a, Added ev, Published ''debros-app-data'' (AppDataUpdateMsg ev (clock w))]"
proof -
  have "effectsOf w w' = p # rest" using assms(1) by (simp add: effectsOf_def)
  with assms(2,3) have "isAnnouncement p \<and>
      prefix (effectsOf w w')
        [p, Added ev, Published ''debros-app-data'' (AppDataUpdateMsg ev (clock w))]"
    by simp
  then show ?thesis by blast
qed

lemma rollbackToVersion_shape:
  "\<exists>a ev. isAnnouncement a \<and>
     prefix (effectsOf w (snd (rollbackToVersion name vt d f w)))
       [a, Added ev, Published ''debros-app-data'' (AppDataUpdateMsg ev (clock w))]"
proof (cases rule: rollbackToVersion_cases[of name vt d f w])
  case (early m)
  then show ?thesis by (intro effects_shape_none) simp
next
  case (stored t)
  from store_tail_shape[OF stored(4) refl stored(2)] obtain rest where
    tr: "trace (snd (rollbackToVersion name vt d f w)) =
       trace w @ Published ''debros-deploy''
         (DeploymentMsg (vcid t) name (tag t) (orElse d (name @ ''.'' @ defaultDomain w))
            (Some True) (clock w)) # rest"
    and pre: "prefix rest
       [Added \<lparr>appName = name, cid = vcid t, version = tag t, timestamp = clock w,
               deployed = True, domain = Some (orElse d (name @ ''.'' @ defaultDomain w)),
               status = Running, isRollback = None\<rparr>,
        Published ''debros-app-data''
          (AppDataUpdateMsg
             \<lparr>appName = name, cid = vcid t, version = tag t, timestamp = clock w,
              deployed = True, domain = Some (orElse d (name @ ''.'' @ defaultDomain w)),
              status = Running, isRollback = None\<rparr> (clock w))]"
    by blast
  show ?thesis by (rule effects_shape_some[OF tr deploy_is_announcement pre])
qed

lemma announceDeployment_shape:
  "\<exists>a ev. isAnnouncement a \<and>
     prefix (effectsOf w (snd (announceDeployment c name v d w)))
       [a, Added ev, Published ''debros-app-data'' (AppDataUpdateMsg ev (clock w))]"
proof (cases rule: announceDeployment_cases[of c name v d w])
  case (early m)
  then show ?thesis by (intro effects_shape_none) simp
next
  case (stored ver dm)
  from store_tail_shape[OF stored(4) refl stored(2)] obtain rest where
    tr: "trace (snd (announceDeployment c name v d w)) =
       trace w @ Published ''debros-deploy'' (DeploymentMsg c name ver dm None (clock w)) # rest"
    and pre: "prefix rest
       [Added \<lparr>appName = name, cid = c, version = ver, timestamp = clock w,
               deployed = True, domain = Some dm, status = Running, isRollback = None\<rparr>,
        Published ''debros-app-data''
          (AppDataUpdateMsg
             \<lparr>appName = name, cid = c, version = ver, timestamp = clock w,
              deployed = True, domain = Some dm, status = Running, isRollback = None\<rparr>
             (clock w))]"
    by blast
  show ?thesis by (rule effects_shape_some[OF tr deploy_is_announcement pre])
qed

lemma stopApplication_shape:
  "\<exists>a ev. isAnnouncement a \<and>
     prefix (effectsOf w (snd (stopApplication name f w)))
       [a, Added ev, Published ''debros-app-data'' (AppDataUpdateMsg ev (clock w))]"
proof (cases rule: stopApplication_cases[of name f w])
  case (early m)
  then show ?thesis by (intro effects_shape_none) simp
next
  case (published r)
  have "trace (snd (stopApplication name f w)) =
      trace w @ Published ''debros-app-actions'' (StopMsg name f (clock w)) # []"
    using published(2) by simp
  then show ?thesis using action_is_announcement by (rule effects_shape_some) simp
next
  case (stored appData)
  from store_tail_shape[OF stored(4) refl stored(2)] obtain rest where
    tr: "trace (snd (stopApplication name f w)) =
       trace w @ Published ''debros-app-actions'' (StopMsg name f (clock w)) # rest"
    and pre: "prefix rest
       [Added (appData\<lparr>status := Stopped, timestamp := clock w\<rparr>),
        Published ''debros-app-data''
          (AppDataUpdateMsg (appData\<lparr>status := Stopped, timestamp := clock w\<rparr>) (clock w))]"
    by blast
  show ?thesis by (rule effects_shape_some[OF tr action_is_announcement pre])
qed

lemma startApplication_shape:
  "\<exists>a ev. isAnnouncement a \<and>
     prefix (effectsOf w (snd (startApplication name v w)))
       [a, Added ev, Published ''debros-app-data'' (AppDataUpdateMsg ev (clock w))]"
proof (cases rule: startApplication_cases[of name v w])
  case (early m)
  then show ?thesis by (intro effects_shape_none) simp
next
  case (published r t vt)
  have "trace (snd (startApplication name v w)) =
      trace w @ Published ''debros-app-actions'' (StartMsg name vt (vcid t) (clock w)) # []"
    using published(2) by simp
  then show ?thesis using action_is_announcement by (rule effects_shape_some) simp
next
  case (stored t vt dm)
  from store_tail_shape[OF stored(4) refl stored(2)] obtain rest where
    tr: "trace (snd (startApplication name v w)) =
       trace w @ Published ''debros-app-actions'' (StartMsg name vt (vcid t) (clock w)) # rest"
    and pre: "prefix rest
       [Added \<lparr>appName = name, cid = vcid t, version = vt, timestamp = clock w,
               deployed = True, domain = Some dm, status = Running, isRollback = None\<rparr>,
        Published ''debros-app-data''
          (AppDataUpdateMsg
             \<lparr>appName = name, cid = vcid t, version = vt, timestamp = clock w,
              deployed = True, domain = Some dm, status = Running, isRollback = None\<rparr>
             (clock w))]"
    by blast
  show ?thesis by (rule effects_shape_some[OF tr action_is_announcement pre])
qed

lemma getAllApps_returns:
  assumes "ipfsErr w = None" and "dbErr w = None"
  shows "getAllApps w = Inr (map snd (foldl appMapStep [] (rev (feed w))))"
  using assms by (simp add: getAllApps_def getApplicationDataDB_def initIpfs_def)

lemma getAllApps_Inr:
  "getAllApps w = Inr apps \<Longrightarrow> apps = map snd (foldl appMapStep [] (rev (feed w)))"
  by (auto simp: getAllApps_def getApplicationDataDB_def initIpfs_def
      split: option.splits sum.splits)

lemma appMap_find_Some:
  assumes "a \<in> appName ` set es"
  shows "\<exists>e. find (\<lambda>app. appName app = a) (map snd (foldl appMapStep [] (rev es))) = Some e"
proof -
  from assms obtain e where e: "map_of (foldl appMapStep [] (rev es)) a = Some e"
    using appMap_None[of es a] by auto
  have "filter (\<lambda>app. appName app = a) (map snd (foldl appMapStep [] (rev es))) = [e]"
    using appMap_distinct appMap_keys e by (rule filter_values_single)
  then show ?thesis by (auto dest: find_of_filter_single)
qed

lemma appMap_find_None:
  assumes "a \<notin> appName ` set es"
  shows "find (\<lambda>app. appName app = a) (map snd (foldl appMapStep [] (rev es))) = None"
proof -
  let ?m = "foldl appMapStep [] (rev es)"
  from assms have "map_of ?m a = None" by (simp add: appMap_None)
  then have "a \<notin> fst ` set ?m" by (simp add: map_of_eq_None_iff)
  moreover have "\<forall>(k, v)\<in>set ?m. appName v = k" by (rule appMap_keys)
  ultimately have "\<forall>q\<in>set ?m. appName (snd q) \<noteq> a" by force
  then show ?thesis by (simp add: find_None_iff)
qed

lemma stopApplication_force_feed:
  "feed (snd (stopApplication name True w)) = feed (snd (stopApplication name False w)) \<and>
   fst (stopApplication name True w) = fst (stopApplication name False w)"
  by (simp add: stopApplication_def initIpfs_def publish_def storeAppData_def Let_def
      split: option.splits sum.splits prod.splits)

section \<open>Histories only extend the feed\<close>

lemma deleteApplication_feed: "feed (snd (deleteApplication name f w)) = feed w"
  by (simp add: deleteApplication_def initIpfs_def publish_def
      split: option.splits sum.splits)

lemma checkAppNameAvailability_eq:
  "checkAppNameAvailability name w =
     (case ipfsErr w of
        Some e \<Rightarrow> Inl e
      | None \<Rightarrow> (case dbErr w of
                   Some e \<Rightarrow> Inl e
                 | None \<Rightarrow> Inr (name \<notin> appName ` set (feed w))))"
  by (auto simp: checkAppNameAvailability_def getApplicationDataDB_def initIpfs_def
      filter_empty_conv split: option.splits)

lemma uploadCommand_taken:
  assumes "name \<in> appName ` set (feed w)"
  shows "uploadCommand ex name t d b w = (Exit1, w)"
  using assms
  by (simp add: uploadCommand_def checkAppNameAvailability_eq Let_def split: option.splits)

lemma uploadCommand_world:
  "snd (uploadCommand ex name t d b w) = w \<or>
   (\<exists>c v dm. snd (uploadCommand ex name t d b w) = snd (announceDeployment c name v dm w))"
proof (cases "\<exists>c. ex \<and> checkAppNameAvailability name w = Inr True \<and> b = Inr c")
  case True
  then obtain c where "ex" "checkAppNameAvailability name w = Inr True" "b = Inr c" by blast
  then have "snd (uploadCommand ex name t d b w) =
      snd (announceDeployment c name (Some (orElse t ''latest''))
             (Some (stripDebrosSol (orElse d name) @ ''.'' @ defaultDomain w)) w)"
    by (simp add: uploadCommand_def Let_def split: prod.splits sum.splits)
  then show ?thesis by blast
next
  case False
  then have "snd (uploadCommand ex name t d b w) = w"
    by (auto simp: uploadCommand_def Let_def split: sum.splits)
  then show ?thesis ..
qed

lemma grown_prefix: "ys = xs \<or> (\<exists>e. ys = xs @ [e]) \<Longrightarrow> prefix xs ys"
  by auto

lemma exec_feed: "prefix (feed w) (feed (exec c w))"
proof (cases c)
  case (Upload ex n t d b)
  from uploadCommand_world[of ex n t d b w] show ?thesis
  proof
    assume "snd (uploadCommand ex n t d b w) = w"
    with Upload show ?thesis by simp
  next
    assume "\<exists>c v dm. snd (uploadCommand ex n t d b w) = snd (announceDeployment c n v dm w)"
    then obtain c' v dm where
      "snd (uploadCommand ex n t d b w) = snd (announceDeployment c' n v dm w)" by blast
    with Upload announceDeployment_summary[OF surjective_pairing, of c' n v dm w,
        THEN conjunct2, THEN conjunct1, THEN grown_prefix]
    show ?thesis by simp
  qed
next
  case (Announce c' n v d)
  with announceDeployment_summary[OF surjective_pairing, of c' n v d w,
      THEN conjunct2, THEN conjunct1, THEN grown_prefix]
  show ?thesis by simp
next
  case (Rollback n v d f)
  with rollbackToVersion_summary[OF surjective_pairing, of n v d f w,
      THEN conjunct2, THEN conjunct1, THEN grown_prefix]
  show ?thesis by simp
next
  case (Stop n f)
  with stopApplication_summary[OF surjective_pairing, of n f w,
      THEN conjunct2, THEN conjunct1, THEN grown_prefix]
  show ?thesis by simp
next
  case (Start n v)
  with startApplication_summary[OF surjective_pairing, of n v w,
      THEN conjunct2, THEN conjunct1, THEN grown_prefix]
  show ?thesis by simp
next
  case (Delete n f)
  then show ?thesis by (simp add: deleteApplication_feed)
next
  case (Outside others env)
  then show ?thesis by simp
qed

lemma run_feed: "prefix (feed w) (feed (run cmds w))"
proof (induction cmds arbitrary: w)
  case Nil
  then show ?case by simp
next
  case (Cons c cmds)
  have "prefix (feed w) (feed (exec c w))" by (rule exec_feed)
  also have "prefix (feed (exec c w)) (feed (run cmds (exec c w)))" by (rule Cons.IH)
  finally show ?case by simp
qed

lemma announceDeployment_success_feed:
  assumes "announceDeployment c name v d w = (Inr r, w')"
  shows "\<exists>ev. appName ev = name \<and> feed w' = feed w @ [ev]"
proof (cases rule: announceDeployment_cases[of c name v d w])
  case (early m)
  with assms show ?thesis by simp
next
  case (stored ver dm)
  let ?ev = "\<lparr>appName = name, cid = c, version = ver, timestamp = clock w,
               deployed = True, domain = Some dm, status = Running, isRollback = None\<rparr>"
  let ?w1 = "w\<lparr>trace := trace w @
               [Published ''debros-deploy'' (DeploymentMsg c name ver dm None (clock w))]\<rparr>"
  from stored(4) assms storeAppData_outcomes[of ?ev ?w1]
  have "feed w' = feed w @ [?ev]" by auto
  moreover have "appName ?ev = name" by simp
  ultimately show ?thesis by blast
qed

lemma uploadCommand_success:
  assumes "uploadCommand ex name t d b w = (Uploaded, w')"
  shows "checkAppNameAvailability name w = Inr True \<and>
         (\<exists>ev. appName ev = name \<and> feed w' = feed w @ [ev])"
proof -
  from assms have av: "checkAppNameAvailability name w = Inr True"
    by (auto simp: uploadCommand_def Let_def split: if_splits sum.splits prod.splits)
  from assms obtain c vv dm r where "announceDeployment c name vv dm w = (Inr r, w')"
    by (auto simp: uploadCommand_def Let_def split: if_splits sum.splits prod.splits)
  from announceDeployment_success_feed[OF this] av show ?thesis by blast
qed

section \<open>Claims\<close>

text \<open>
  C1. When the feed can be read and the application name \<open>a\<close> occurs in it,
  \<open>getAllApps\<close> returns a list with exactly one entry for \<open>a\<close>. That entry is an event
  \<open>e\<close> of the feed with this name; no event of \<open>a\<close> stored before it has a greater
  timestamp, and every event of \<open>a\<close> stored after it has a strictly smaller one. So it
  is the event with the greatest timestamp, the last appended among equals. The entry is
  the whole event, so its cid, version, deployed flag and status come from that one
  event.
\<close>

theorem getAllApps_latest_event_wins:
  assumes "ipfsErr w = None" and "dbErr w = None" and "a \<in> appName ` set (feed w)"
  shows "\<exists>apps pre e post.
           getAllApps w = Inr apps \<and>
           feed w = pre @ e # post \<and> appName e = a \<and>
           (\<forall>x\<in>set pre. appName x = a \<longrightarrow> timestamp x \<le> timestamp e) \<and>
           (\<forall>x\<in>set post. appName x = a \<longrightarrow> timestamp x < timestamp e) \<and>
           filter (\<lambda>app. appName app = a) apps = [e] \<and>
           find (\<lambda>app. appName app = a) apps = Some e"
proof -
  let ?m = "foldl appMapStep [] (rev (feed w))"
  have run: "getAllApps w = Inr (map snd ?m)"
    using assms(1,2) by (simp add: getAllApps_def getApplicationDataDB_def initIpfs_def)
  from assms(3) obtain e where e: "map_of ?m a = Some e"
    using appMap_None[of "feed w" a] by auto
  from appMap_Some[OF e] obtain pre post where
    d: "feed w = pre @ e # post" "appName e = a"
       "\<forall>x\<in>set pre. appName x = a \<longrightarrow> timestamp x \<le> timestamp e"
       "\<forall>x\<in>set post. appName x = a \<longrightarrow> timestamp x < timestamp e"
    by blast
  have one: "filter (\<lambda>app. appName app = a) (map snd ?m) = [e]"
    using appMap_distinct appMap_keys e by (rule filter_values_single)
  from run d one find_of_filter_single[OF one] show ?thesis by blast
qed

theorem getAllApps_latest_event_wins_witness:
  "ipfsErr blogWorld = None \<and> dbErr blogWorld = None \<and>
   ''blog'' \<in> appName ` set (feed blogWorld) \<and>
   getAllApps blogWorld = Inr [blogV2] \<and>
   (\<exists>apps pre e post.
      getAllApps blogWorld = Inr apps \<and> feed blogWorld = pre @ e # post \<and>
      filter (\<lambda>app. appName app = ''blog'') apps = [e])"
proof -
  have h: "ipfsErr blogWorld = None" "dbErr blogWorld = None"
          "''blog'' \<in> appName ` set (feed blogWorld)"
    by (simp_all add: blogWorld_def calm_def blogV1_def)
  have v: "getAllApps blogWorld = Inr [blogV2]"
    by (simp add: getAllApps_def getApplicationDataDB_def initIpfs_def blogWorld_def
        calm_def appMapStep_def blogV1_def blogV2_def)
  from getAllApps_latest_event_wins[OF h] h v show ?thesis by blast
qed

text \<open>
  C2 (as amended). When the feed can be read, \<open>getAppVersions\<close> returns a list that
  has one entry per event of the application (the tags, cids and timestamps of the
  entries are those of the events, with multiplicity) and is sorted by timestamp,
  newest first. If at least one event of the application is marked deployed, exactly one
  entry has \<open>deployed = true\<close>: it is the entry of an event that was marked deployed and
  whose timestamp is the greatest among the events marked deployed; every other entry
  has \<open>deployed = false\<close>, whatever its event said. If no event of the application is
  marked deployed, no entry has \<open>deployed = true\<close>. For the two events (10, v1,
  deployed) and (20, v2, deployed) of "blog" the list is v2 (deployed), v1 (not
  deployed).
\<close>

theorem getAppVersions_sorted_one_deployed:
  assumes "ipfsErr w = None" and "dbErr w = None"
  shows "\<exists>vs. getAppVersions name w = Inr vs \<and>
           mset (map (\<lambda>v. (tag v, vcid v, vtimestamp v)) vs) =
             mset (map (\<lambda>d. (version d, cid d, timestamp d))
                       (filter (\<lambda>d. appName d = name) (feed w))) \<and>
           sorted_wrt (\<lambda>x y. vtimestamp y \<le> vtimestamp x) vs \<and>
           (if \<exists>d\<in>set (feed w). appName d = name \<and> deployed d
            then \<exists>d\<in>set (feed w). appName d = name \<and> deployed d \<and>
                   (\<forall>d'\<in>set (feed w). appName d' = name \<and> deployed d' \<longrightarrow>
                      timestamp d' \<le> timestamp d) \<and>
                   filter vdeployed vs =
                     [\<lparr>tag = version d, vcid = cid d, vtimestamp = timestamp d,
                       vdeployed = True\<rparr>]
            else filter vdeployed vs = []) \<and>
           getAppVersions ''blog''
             (w\<lparr>feed := [\<lparr>appName = ''blog'', cid = c1, version = ''v1'', timestamp = 10,
                          deployed = True, domain = d1, status = s1, isRollback = r1\<rparr>,
                         \<lparr>appName = ''blog'', cid = c2, version = ''v2'', timestamp = 20,
                          deployed = True, domain = d2, status = s2, isRollback = r2\<rparr>]\<rparr>) =
             Inr [\<lparr>tag = ''v2'', vcid = c2, vtimestamp = 20, vdeployed = True\<rparr>,
                  \<lparr>tag = ''v1'', vcid = c1, vtimestamp = 10, vdeployed = False\<rparr>]"
proof -
  let ?toV = "\<lambda>d. \<lparr>tag = version d, vcid = cid d, vtimestamp = timestamp d,
                     vdeployed = deployed d\<rparr>"
  let ?es = "filter (\<lambda>d. appName d = name) (feed w)"
  let ?srt = "newestFirst (map ?toV ?es)"
  let ?vs = "markLatestDeployed ?srt"
  let ?core = "\<lambda>v. (tag v, vcid v, vtimestamp v)"
  have run: "getAppVersions name w = Inr ?vs"
    using assms by (rule getAppVersions_returns)
  have "map ?core ?vs = map ?core ?srt"
    by (rule markLatestDeployed_map) simp
  then have "mset (map ?core ?vs) = mset (map ?core ?srt)" by (rule arg_cong)
  also have "\<dots> = mset (map ?core (map ?toV ?es))"
  proof -
    have "mset ?srt = mset (map ?toV ?es)" unfolding newestFirst_def by (rule mset_sort)
    then have "image_mset ?core (mset ?srt) = image_mset ?core (mset (map ?toV ?es))"
      by (rule arg_cong)
    then show ?thesis by (simp only: mset_map)
  qed
  also have "map ?core (map ?toV ?es) = map (\<lambda>d. (version d, cid d, timestamp d)) ?es"
    by simp
  finally have perm: "mset (map ?core ?vs) = mset (map (\<lambda>d. (version d, cid d, timestamp d)) ?es)" .
  have srt: "sorted_wrt (\<lambda>x y. vtimestamp y \<le> vtimestamp x) ?srt"
    by (rule newestFirst_sorted)
  then have sorted: "sorted_wrt (\<lambda>x y. vtimestamp y \<le> vtimestamp x) ?vs"
    by (rule markLatestDeployed_sorted)
  have set_srt: "set ?srt = ?toV ` set ?es" by (simp add: newestFirst_def)
  have flag: "if \<exists>d\<in>set (feed w). appName d = name \<and> deployed d
        then \<exists>d\<in>set (feed w). appName d = name \<and> deployed d \<and>
               (\<forall>d'\<in>set (feed w). appName d' = name \<and> deployed d' \<longrightarrow>
                  timestamp d' \<le> timestamp d) \<and>
               filter vdeployed ?vs = [\<lparr>tag = version d, vcid = cid d,
                 vtimestamp = timestamp d, vdeployed = True\<rparr>]
        else filter vdeployed ?vs = []"
  proof (cases "findIndex vdeployed ?srt")
    case None
    then have "\<forall>v\<in>set ?srt. \<not> vdeployed v" by (simp add: findIndex_None)
    then have no: "\<not> (\<exists>d\<in>set (feed w). appName d = name \<and> deployed d)"
      unfolding set_srt by auto
    have "filter vdeployed ?vs = []"
      using None by (simp add: markLatestDeployed_filter)
    with no show ?thesis by simp
  next
    case (Some i)
    from findIndex_Some[OF Some] have i: "i < length ?srt" "vdeployed (?srt ! i)" by auto
    from i(1) have "?srt ! i \<in> set ?srt" by (rule nth_mem)
    then obtain d where d: "d \<in> set ?es" "?toV d = ?srt ! i"
      unfolding set_srt by auto
    from d i(2) have dd: "d \<in> set (feed w)" "appName d = name" "deployed d"
      by (auto simp flip: d(2))
    have max: "\<forall>d'\<in>set (feed w). appName d' = name \<and> deployed d' \<longrightarrow> timestamp d' \<le> timestamp d"
    proof (intro ballI impI)
      fix d' assume a: "d' \<in> set (feed w)" "appName d' = name \<and> deployed d'"
      then have "?toV d' \<in> set ?srt" unfolding set_srt by auto
      moreover have "vdeployed (?toV d')" using a by simp
      ultimately have "vtimestamp (?toV d') \<le> vtimestamp (?srt ! i)"
        by (rule first_deployed_is_latest[OF srt Some])
      then show "timestamp d' \<le> timestamp d" by (simp flip: d(2))
    qed
    have "filter vdeployed ?vs = [?srt ! i]"
      using Some by (simp add: markLatestDeployed_filter)
    also have "?srt ! i = \<lparr>tag = version d, vcid = cid d, vtimestamp = timestamp d, vdeployed = True\<rparr>"
      using dd(3) by (simp flip: d(2))
    finally have "filter vdeployed ?vs = [\<lparr>tag = version d, vcid = cid d, vtimestamp = timestamp d, vdeployed = True\<rparr>]" .
    with dd max show ?thesis by auto
  qed
  have ex: "getAppVersions ''blog''
             (w\<lparr>feed := [\<lparr>appName = ''blog'', cid = c1, version = ''v1'', timestamp = 10,
                          deployed = True, domain = d1, status = s1, isRollback = r1\<rparr>,
                         \<lparr>appName = ''blog'', cid = c2, version = ''v2'', timestamp = 20,
                          deployed = True, domain = d2, status = s2, isRollback = r2\<rparr>]\<rparr>) =
             Inr [\<lparr>tag = ''v2'', vcid = c2, vtimestamp = 20, vdeployed = True\<rparr>,
                  \<lparr>tag = ''v1'', vcid = c1, vtimestamp = 10, vdeployed = False\<rparr>]"
    using assms
    by (simp add: getAppVersions_def getApplicationDataDB_def initIpfs_def newestFirst_def
        markLatestDeployed_def)
  from run perm sorted flag ex show ?thesis by blast
qed

theorem getAppVersions_sorted_one_deployed_witness:
  "ipfsErr blogWorld = None \<and> dbErr blogWorld = None \<and>
   getAppVersions ''blog'' blogWorld =
     Inr [\<lparr>tag = ''v2'', vcid = ''cid2'', vtimestamp = 20, vdeployed = True\<rparr>,
          \<lparr>tag = ''v1'', vcid = ''cid1'', vtimestamp = 10, vdeployed = False\<rparr>] \<and>
   (\<exists>vs. getAppVersions ''blog'' blogWorld = Inr vs \<and>
      sorted_wrt (\<lambda>x y. vtimestamp y \<le> vtimestamp x) vs \<and>
      length (filter vdeployed vs) = 1) \<and>
   ipfsErr calm = None \<and> dbErr calm = None \<and>
   (\<exists>vs. getAppVersions ''blog'' calm = Inr vs \<and> filter vdeployed vs = [])"
proof -
  have h: "ipfsErr blogWorld = None" "dbErr blogWorld = None"
    by (simp_all add: example_defs)
  have d: "\<exists>d\<in>set (feed blogWorld). appName d = ''blog'' \<and> deployed d"
    by (simp add: example_defs)
  have v: "getAppVersions ''blog'' blogWorld =
     Inr [\<lparr>tag = ''v2'', vcid = ''cid2'', vtimestamp = 20, vdeployed = True\<rparr>,
          \<lparr>tag = ''v1'', vcid = ''cid1'', vtimestamp = 10, vdeployed = False\<rparr>]"
    by (simp add: command_defs example_defs)
  from getAppVersions_sorted_one_deployed[OF h, of "''blog''"] obtain vs where
    vs: "getAppVersions ''blog'' blogWorld = Inr vs"
        "sorted_wrt (\<lambda>x y. vtimestamp y \<le> vtimestamp x) vs"
        "if \<exists>d\<in>set (feed blogWorld). appName d = ''blog'' \<and> deployed d
         then \<exists>d\<in>set (feed blogWorld). appName d = ''blog'' \<and> deployed d \<and>
                (\<forall>d'\<in>set (feed blogWorld). appName d' = ''blog'' \<and> deployed d' \<longrightarrow>
                   timestamp d' \<le> timestamp d) \<and>
                filter vdeployed vs =
                  [\<lparr>tag = version d, vcid = cid d, vtimestamp = timestamp d, vdeployed = True\<rparr>]
         else filter vdeployed vs = []"
    by blast
  from vs(3) d have "length (filter vdeployed vs) = 1" by auto
  with vs(1,2) have one: "\<exists>vs. getAppVersions ''blog'' blogWorld = Inr vs \<and>
      sorted_wrt (\<lambda>x y. vtimestamp y \<le> vtimestamp x) vs \<and>
      length (filter vdeployed vs) = 1"
    by blast
  have k: "ipfsErr calm = None" "dbErr calm = None"
    by (simp_all add: example_defs)
  have n: "\<not> (\<exists>d\<in>set (feed calm). appName d = ''blog'' \<and> deployed d)"
    by (simp add: example_defs)
  from getAppVersions_sorted_one_deployed[OF k, of "''blog''"] obtain us where
    us: "getAppVersions ''blog'' calm = Inr us"
        "if \<exists>d\<in>set (feed calm). appName d = ''blog'' \<and> deployed d
         then \<exists>d\<in>set (feed calm). appName d = ''blog'' \<and> deployed d \<and>
                (\<forall>d'\<in>set (feed calm). appName d' = ''blog'' \<and> deployed d' \<longrightarrow>
                   timestamp d' \<le> timestamp d) \<and>
                filter vdeployed us =
                  [\<lparr>tag = version d, vcid = cid d, vtimestamp = timestamp d, vdeployed = True\<rparr>]
         else filter vdeployed us = []"
    by blast
  from us(2) n have "filter vdeployed us = []" by (simp only: if_False)
  with us(1) have none: "\<exists>vs. getAppVersions ''blog'' calm = Inr vs \<and> filter vdeployed vs = []"
    by blast
  from h v one k none show ?thesis by (intro conjI)
qed

text \<open>
  C2 as stated asks for exactly one deployed entry for every feed. For an application
  without events the list is empty, and for one whose only event is not marked deployed
  the only entry is not deployed: in both cases the number of deployed entries is not
  one.
\<close>

theorem getAppVersions_exactly_one_counterexample:
  "getAppVersions ''blog'' calm = Inr [] \<and>
   length (filter vdeployed ([] :: AppVersion list)) \<noteq> 1 \<and>
   getAppVersions ''blog'' (calm\<lparr>feed := [blogV1\<lparr>deployed := False\<rparr>]\<rparr>) =
     Inr [\<lparr>tag = ''v1'', vcid = ''cid1'', vtimestamp = 10, vdeployed = False\<rparr>] \<and>
   length (filter vdeployed
     [\<lparr>tag = ''v1'', vcid = ''cid1'', vtimestamp = 10, vdeployed = False\<rparr>]) \<noteq> 1"
  by (simp add: command_defs example_defs)

text \<open>
  C3 (as amended). Let the list of versions of the application be non-empty, let no
  version tag be given (absent or empty), and let libp2p, the publishing on both topics
  and \<^verbatim>\<open>db.add\<close> succeed. If some entry has \<open>deployed = false\<close>, \<open>rollbackToVersion\<close>
  chooses such an entry \<open>t\<close> with the greatest timestamp among them, returns success with
  the tag and cid of \<open>t\<close>, and appends exactly one event: \<open>deployed = true\<close>, status
  running, the cid and version of \<open>t\<close>, the clock's timestamp, and no \<^verbatim>\<open>isRollback\<close>
  property; \<^verbatim>\<open>isRollback: true\<close> is carried by the message published on
  \<^verbatim>\<open>debros-deploy\<close> only. If no entry has \<open>deployed = false\<close>, the command returns
  the failure "No previous versions found to rollback to" and changes nothing.
\<close>

theorem rollbackToVersion_previous_version:
  assumes env: "libp2p w" "addErr w = None" "pubErr w ''debros-deploy'' = None"
      "pubErr w ''debros-app-data'' = None"
    and notag: "truthy versionTag = None"
    and vs: "getAppVersions name w = Inr vs" "vs \<noteq> []"
  shows "if \<exists>v\<in>set vs. \<not> vdeployed v
         then \<exists>t\<in>set vs. \<not> vdeployed t \<and>
                (\<forall>v\<in>set vs. \<not> vdeployed v \<longrightarrow> vtimestamp v \<le> vtimestamp t) \<and>
                (let appDomain = orElse domainArg (name @ ''.'' @ defaultDomain w);
                     ev = \<lparr>appName = name, cid = vcid t, version = tag t, timestamp = clock w,
                           deployed = True, domain = Some appDomain, status = Running,
                           isRollback = None\<rparr>
                 in rollbackToVersion name versionTag domainArg force w =
                      (\<lparr>success = True, message = None, rversion = Some (tag t),
                        rcid = Some (vcid t)\<rparr>,
                       w\<lparr>feed := feed w @ [ev],
                         trace := trace w @
                           [Published ''debros-deploy''
                              (DeploymentMsg (vcid t) name (tag t) appDomain (Some True) (clock w)),
                            Added ev,
                            Published ''debros-app-data'' (AppDataUpdateMsg ev (clock w))]\<rparr>))
         else rollbackToVersion name versionTag domainArg force w =
                (failure ''No previous versions found to rollback to'', w)"
proof -
  from getAppVersions_Inr_env[OF vs(1)] have env2: "ipfsErr w = None" "dbErr w = None" by auto
  let ?others = "filter (\<lambda>v. \<not> vdeployed v) vs"
  show ?thesis
  proof (cases "\<exists>v\<in>set vs. \<not> vdeployed v")
    case False
    then have "?others = []" by (auto simp: filter_empty_conv)
    then have "newestFirst ?others = []" by (simp add: newestFirst_def)
    with False env env2 notag vs show ?thesis
      by (simp add: rollbackToVersion_def initIpfs_simps)
  next
    case True
    then have ne: "?others \<noteq> []" by (auto simp: filter_empty_conv)
    let ?t = "newestFirst ?others ! 0"
    from newestFirst_first_max[OF ne] have
      t: "?t \<in> set vs" "\<not> vdeployed ?t"
         "\<forall>v\<in>set vs. \<not> vdeployed v \<longrightarrow> vtimestamp v \<le> vtimestamp ?t"
      by auto
    have len: "length (newestFirst ?others) \<noteq> 0" using ne by (simp add: newestFirst_def)
    let ?dom = "orElse domainArg (name @ ''.'' @ defaultDomain w)"
    let ?ev = "\<lparr>appName = name, cid = vcid ?t, version = tag ?t, timestamp = clock w,
                 deployed = True, domain = Some ?dom, status = Running, isRollback = None\<rparr>"
    let ?w1 = "w\<lparr>trace := trace w @ [Published ''debros-deploy''
                 (DeploymentMsg (vcid ?t) name (tag ?t) ?dom (Some True) (clock w))]\<rparr>"
    have st: "storeAppData ?ev ?w1 =
           (Inr True, ?w1\<lparr>feed := feed ?w1 @ [?ev],
                        trace := trace ?w1 @ [Added ?ev,
                          Published ''debros-app-data'' (AppDataUpdateMsg ?ev (clock ?w1))]\<rparr>)"
      by (rule storeAppData_ok) (use env env2 in simp_all)
    have "rollbackToVersion name versionTag domainArg force w =
            (\<lparr>success = True, message = None, rversion = Some (tag ?t), rcid = Some (vcid ?t)\<rparr>,
             w\<lparr>feed := feed w @ [?ev],
               trace := trace w @
                 [Published ''debros-deploy''
                    (DeploymentMsg (vcid ?t) name (tag ?t) ?dom (Some True) (clock w)),
                  Added ?ev,
                  Published ''debros-app-data'' (AppDataUpdateMsg ?ev (clock w))]\<rparr>)"
      using env env2 notag vs len st
      by (simp add: rollbackToVersion_def initIpfs_simps publish_simps Let_def)
    with True t show ?thesis by (auto simp: Let_def)
  qed
qed

theorem rollbackToVersion_previous_version_witness:
  "libp2p blogWorld \<and> addErr blogWorld = None \<and> pubErr blogWorld ''debros-deploy'' = None \<and>
   pubErr blogWorld ''debros-app-data'' = None \<and> truthy None = None \<and>
   getAppVersions ''blog'' blogWorld =
     Inr [\<lparr>tag = ''v2'', vcid = ''cid2'', vtimestamp = 20, vdeployed = True\<rparr>,
          \<lparr>tag = ''v1'', vcid = ''cid1'', vtimestamp = 10, vdeployed = False\<rparr>] \<and>
   fst (rollbackToVersion ''blog'' None None False blogWorld) =
     \<lparr>success = True, message = None, rversion = Some ''v1'', rcid = Some ''cid1''\<rparr> \<and>
   (\<exists>t :: AppVersion. \<not> vdeployed t \<and>
      fst (rollbackToVersion ''blog'' None None False blogWorld) =
        \<lparr>success = True, message = None, rversion = Some (tag t), rcid = Some (vcid t)\<rparr>)"
proof -
  let ?vs = "[\<lparr>tag = ''v2'', vcid = ''cid2'', vtimestamp = 20, vdeployed = True\<rparr>,
          \<lparr>tag = ''v1'', vcid = ''cid1'', vtimestamp = 10, vdeployed = False\<rparr>]"
  have h: "libp2p blogWorld" "addErr blogWorld = None" "pubErr blogWorld ''debros-deploy'' = None"
     "pubErr blogWorld ''debros-app-data'' = None"
    by (simp_all add: example_defs)
  have n: "truthy None = None" by (simp add: truthy_def)
  have v: "getAppVersions ''blog'' blogWorld = Inr ?vs"
    by (simp add: command_defs example_defs)
  have ne: "?vs \<noteq> []" by simp
  have some: "\<exists>v\<in>set ?vs. \<not> vdeployed v" by simp
  have r: "fst (rollbackToVersion ''blog'' None None False blogWorld) =
     \<lparr>success = True, message = None, rversion = Some ''v1'', rcid = Some ''cid1''\<rparr>"
    by (simp add: rollbackToVersion_def command_defs example_defs)
  have ex: "\<exists>t :: AppVersion. \<not> vdeployed t \<and> ''v1'' = tag t \<and> ''cid1'' = vcid t"
    by (rule exI[of _ "\<lparr>tag = ''v1'', vcid = ''cid1'', vtimestamp = 10, vdeployed = False\<rparr>"])
      simp
  note th = rollbackToVersion_previous_version[OF h n v ne, of None False,
      unfolded if_P[OF some]]
  have "\<exists>t :: AppVersion. \<not> vdeployed t \<and>
      fst (rollbackToVersion ''blog'' None None False blogWorld) =
        \<lparr>success = True, message = None, rversion = Some (tag t), rcid = Some (vcid t)\<rparr>"
    using th ex by (auto simp: Let_def)
  with h n v r show ?thesis by blast
qed

text \<open>
  C3 as stated says the appended event has \<open>isRollback = true\<close>. In the history of
  "blog" the event appended by a rollback without a tag has no such property.
\<close>

theorem rollbackToVersion_isRollback_counterexample:
  "feed (snd (rollbackToVersion ''blog'' None None False blogWorld)) =
     [blogV1, blogV2,
      \<lparr>appName = ''blog'', cid = ''cid1'', version = ''v1'', timestamp = 30, deployed = True,
       domain = Some ''blog.debros.sol'', status = Running, isRollback = None\<rparr>] \<and>
   isRollback (last (feed (snd (rollbackToVersion ''blog'' None None False blogWorld)))) \<noteq>
     Some True"
  by (simp add: rollbackToVersion_def command_defs example_defs)

text \<open>
  C4 (as amended). In \<open>announceDeployment\<close>, \<open>startApplication\<close>, \<open>stopApplication\<close>
  and \<open>rollbackToVersion\<close> the message is published on the announcement bus
  (\<^verbatim>\<open>debros-deploy\<close> or \<^verbatim>\<open>debros-app-actions\<close>) first and the event is appended
  afterwards. The effects a command adds are an initial part of the sequence: one
  announcement, the append of one event, the update for that same event published by
  \<open>storeAppData\<close> on \<^verbatim>\<open>debros-app-data\<close>. So every append has the announcement before
  it, no announcement follows the append, and the only message published after the
  append is that update. The effects recorded before the command stay as they were.
\<close>

theorem broadcast_precedes_append:
  "broadcastBeforeAppend (effectsOf w (snd (announceDeployment c name v d w))) \<and>
   take (length (trace w)) (trace (snd (announceDeployment c name v d w))) = trace w \<and>
   broadcastBeforeAppend (effectsOf w (snd (startApplication name v w))) \<and>
   take (length (trace w)) (trace (snd (startApplication name v w))) = trace w \<and>
   broadcastBeforeAppend (effectsOf w (snd (stopApplication name f w))) \<and>
   take (length (trace w)) (trace (snd (stopApplication name f w))) = trace w \<and>
   broadcastBeforeAppend (effectsOf w (snd (rollbackToVersion name v d f w))) \<and>
   take (length (trace w)) (trace (snd (rollbackToVersion name v d f w))) = trace w \<and>
   (\<exists>a ev. isAnnouncement a \<and>
      prefix (effectsOf w (snd (announceDeployment c name v d w)))
        [a, Added ev, Published ''debros-app-data'' (AppDataUpdateMsg ev (clock w))]) \<and>
   (\<exists>a ev. isAnnouncement a \<and>
      prefix (effectsOf w (snd (startApplication name v w)))
        [a, Added ev, Published ''debros-app-data'' (AppDataUpdateMsg ev (clock w))]) \<and>
   (\<exists>a ev. isAnnouncement a \<and>
      prefix (effectsOf w (snd (stopApplication name f w)))
        [a, Added ev, Published ''debros-app-data'' (AppDataUpdateMsg ev (clock w))]) \<and>
   (\<exists>a ev. isAnnouncement a \<and>
      prefix (effectsOf w (snd (rollbackToVersion name v d f w)))
        [a, Added ev, Published ''debros-app-data'' (AppDataUpdateMsg ev (clock w))])"
proof -
  note a = announceDeployment_summary[OF surjective_pairing, THEN conjunct1,
      THEN broadcastBeforeAppend_effects]
  note b = startApplication_summary[OF surjective_pairing, THEN conjunct1,
      THEN broadcastBeforeAppend_effects]
  note c = stopApplication_summary[OF surjective_pairing, THEN conjunct1,
      THEN broadcastBeforeAppend_effects]
  note d = rollbackToVersion_summary[OF surjective_pairing, THEN conjunct1,
      THEN broadcastBeforeAppend_effects]
  note a' = announceDeployment_shape[of w c name v d]
  note b' = startApplication_shape[of w name v]
  note c' = stopApplication_shape[of w name f]
  note d' = rollbackToVersion_shape[of w name v d f]
  from a b c d show ?thesis by (intro conjI a' b' c' d') simp_all
qed

theorem broadcast_precedes_append_witness:
  "effectsOf blogWorld (snd (rollbackToVersion ''blog'' None None False blogWorld)) =
     [Published ''debros-deploy''
        (DeploymentMsg ''cid1'' ''blog'' ''v1'' ''blog.debros.sol'' (Some True) 30),
      Added \<lparr>appName = ''blog'', cid = ''cid1'', version = ''v1'', timestamp = 30,
             deployed = True, domain = Some ''blog.debros.sol'', status = Running,
             isRollback = None\<rparr>,
      Published ''debros-app-data''
        (AppDataUpdateMsg
           \<lparr>appName = ''blog'', cid = ''cid1'', version = ''v1'', timestamp = 30,
            deployed = True, domain = Some ''blog.debros.sol'', status = Running,
            isRollback = None\<rparr> 30)] \<and>
   broadcastBeforeAppend
     (effectsOf blogWorld (snd (rollbackToVersion ''blog'' None None False blogWorld))) \<and>
   (\<exists>a ev. isAnnouncement a \<and>
      prefix (effectsOf blogWorld (snd (rollbackToVersion ''blog'' None None False blogWorld)))
        [a, Added ev, Published ''debros-app-data'' (AppDataUpdateMsg ev (clock blogWorld))])"
proof -
  have "effectsOf blogWorld (snd (rollbackToVersion ''blog'' None None False blogWorld)) =
     [Published ''debros-deploy''
        (DeploymentMsg ''cid1'' ''blog'' ''v1'' ''blog.debros.sol'' (Some True) 30),
      Added \<lparr>appName = ''blog'', cid = ''cid1'', version = ''v1'', timestamp = 30,
             deployed = True, domain = Some ''blog.debros.sol'', status = Running,
             isRollback = None\<rparr>,
      Published ''debros-app-data''
        (AppDataUpdateMsg
           \<lparr>appName = ''blog'', cid = ''cid1'', version = ''v1'', timestamp = 30,
            deployed = True, domain = Some ''blog.debros.sol'', status = Running,
            isRollback = None\<rparr> 30)]"
    by (simp add: effectsOf_def rollbackToVersion_def command_defs example_defs)
  with broadcast_precedes_append[of blogWorld "''cid3''" "''blog''" None None False]
  show ?thesis by blast
qed

text \<open>
  C4 as stated puts the append before the broadcast. Stopping "blog" publishes the stop
  message, then appends the event, then publishes the data update; the announcement is
  the first effect, with no append before it. The same holds for a rollback, a start and
  an announcement.
\<close>

theorem append_before_broadcast_counterexample:
  "effectsOf blogWorld (snd (stopApplication ''blog'' False blogWorld)) =
     [Published ''debros-app-actions'' (StopMsg ''blog'' False 30),
      Added (blogV2\<lparr>status := Stopped, timestamp := 30\<rparr>),
      Published ''debros-app-data''
        (AppDataUpdateMsg (blogV2\<lparr>status := Stopped, timestamp := 30\<rparr>) 30)] \<and>
   \<not> appendBeforeBroadcast
       (effectsOf blogWorld (snd (stopApplication ''blog'' False blogWorld))) \<and>
   \<not> appendBeforeBroadcast
       (effectsOf blogWorld (snd (rollbackToVersion ''blog'' None None False blogWorld))) \<and>
   \<not> appendBeforeBroadcast
       (effectsOf blogWorld (snd (startApplication ''blog'' (Some ''v1'') blogWorld))) \<and>
   \<not> appendBeforeBroadcast
       (effectsOf calm (snd (announceDeployment ''cid1'' ''blog'' (Some ''v1'') None calm)))"
  by (simp add: effectsOf_def stopApplication_def rollbackToVersion_def startApplication_def
      announceDeployment_def command_defs example_defs appendBeforeBroadcast_def
      isAnnouncement_def isAppend_def)

text \<open>
  C5 (as amended). A failed publish fails the command. If publishing on the command's
  announcement topic throws, \<open>rollbackToVersion\<close>, \<open>startApplication\<close> and
  \<open>stopApplication\<close> do not return success, \<open>announceDeployment\<close> throws, and nothing is
  appended. If the append succeeds and the publishing on \<^verbatim>\<open>debros-app-data\<close> that
  follows it throws the error \<open>e\<close>, the three commands return the failure with message
  \<open>e\<close> and \<open>announceDeployment\<close> throws \<open>e\<close>, although the event stays in the feed.
\<close>

theorem publish_failure_fails_command:
  "(pubErr w ''debros-deploy'' = Some e \<longrightarrow>
      \<not> success (fst (rollbackToVersion name vt d f w)) \<and>
      feed (snd (rollbackToVersion name vt d f w)) = feed w \<and>
      (\<exists>m. fst (announceDeployment c name v d w) = Inl m) \<and>
      feed (snd (announceDeployment c name v d w)) = feed w) \<and>
   (pubErr w ''debros-app-actions'' = Some e \<longrightarrow>
      \<not> success (fst (startApplication name v w)) \<and>
      feed (snd (startApplication name v w)) = feed w \<and>
      \<not> success (fst (stopApplication name f w)) \<and>
      feed (snd (stopApplication name f w)) = feed w) \<and>
   (pubErr w ''debros-app-data'' = Some e \<longrightarrow>
      (feed (snd (rollbackToVersion name vt d f w)) \<noteq> feed w \<longrightarrow>
         fst (rollbackToVersion name vt d f w) = failure e) \<and>
      (feed (snd (startApplication name v w)) \<noteq> feed w \<longrightarrow>
         fst (startApplication name v w) = failure e) \<and>
      (feed (snd (stopApplication name f w)) \<noteq> feed w \<longrightarrow>
         fst (stopApplication name f w) = failure e) \<and>
      (feed (snd (announceDeployment c name v d w)) \<noteq> feed w \<longrightarrow>
         fst (announceDeployment c name v d w) = Inl e))"
proof -
  note a = announceDeployment_summary[OF surjective_pairing, of c name v d w e,
      THEN conjunct2, THEN conjunct2]
  note b = startApplication_summary[OF surjective_pairing, of name v w e,
      THEN conjunct2, THEN conjunct2]
  note c = stopApplication_summary[OF surjective_pairing, of name f w e,
      THEN conjunct2, THEN conjunct2]
  note d = rollbackToVersion_summary[OF surjective_pairing, of name vt d f w e,
      THEN conjunct2, THEN conjunct2]
  from a d have "pubErr w ''debros-deploy'' = Some e \<longrightarrow>
      \<not> success (fst (rollbackToVersion name vt d f w)) \<and>
      feed (snd (rollbackToVersion name vt d f w)) = feed w \<and>
      (\<exists>m. fst (announceDeployment c name v d w) = Inl m) \<and>
      feed (snd (announceDeployment c name v d w)) = feed w"
    by blast
  moreover from b c have "pubErr w ''debros-app-actions'' = Some e \<longrightarrow>
      \<not> success (fst (startApplication name v w)) \<and>
      feed (snd (startApplication name v w)) = feed w \<and>
      \<not> success (fst (stopApplication name f w)) \<and>
      feed (snd (stopApplication name f w)) = feed w"
    by blast
  moreover from a b c d have "pubErr w ''debros-app-data'' = Some e \<longrightarrow>
      (feed (snd (rollbackToVersion name vt d f w)) \<noteq> feed w \<longrightarrow>
         fst (rollbackToVersion name vt d f w) = failure e) \<and>
      (feed (snd (startApplication name v w)) \<noteq> feed w \<longrightarrow>
         fst (startApplication name v w) = failure e) \<and>
      (feed (snd (stopApplication name f w)) \<noteq> feed w \<longrightarrow>
         fst (stopApplication name f w) = failure e) \<and>
      (feed (snd (announceDeployment c name v d w)) \<noteq> feed w \<longrightarrow>
         fst (announceDeployment c name v d w) = Inl e)"
    by blast
  ultimately show ?thesis by (intro conjI)
qed

theorem publish_failure_fails_command_witness:
  "pubErr noAnnouncePeers ''debros-deploy'' = Some ''no peers'' \<and>
   \<not> success (fst (rollbackToVersion ''blog'' None None False noAnnouncePeers)) \<and>
   feed (snd (rollbackToVersion ''blog'' None None False noAnnouncePeers)) =
     feed noAnnouncePeers \<and>
   pubErr noAnnouncePeers ''debros-app-actions'' = Some ''no peers'' \<and>
   \<not> success (fst (stopApplication ''blog'' False noAnnouncePeers)) \<and>
   feed (snd (stopApplication ''blog'' False noAnnouncePeers)) = feed noAnnouncePeers \<and>
   pubErr noAppDataPeers ''debros-app-data'' = Some ''no peers'' \<and>
   feed (snd (rollbackToVersion ''blog'' None None False noAppDataPeers)) \<noteq>
     feed noAppDataPeers \<and>
   fst (rollbackToVersion ''blog'' None None False noAppDataPeers) = failure ''no peers''"
proof -
  have h1: "pubErr noAnnouncePeers ''debros-deploy'' = Some ''no peers''"
    and h2: "pubErr noAnnouncePeers ''debros-app-actions'' = Some ''no peers''"
    and h3: "pubErr noAppDataPeers ''debros-app-data'' = Some ''no peers''"
    by (simp_all add: example_defs noAppDataPeers_def noAnnouncePeers_def)
  have h4: "feed (snd (rollbackToVersion ''blog'' None None False noAppDataPeers)) \<noteq>
     feed noAppDataPeers"
    by (simp add: rollbackToVersion_def command_defs example_defs noAppDataPeers_def noAnnouncePeers_def)
  note a = publish_failure_fails_command[of noAnnouncePeers "''no peers''" "''blog''" None
      None False "''cid3''" None]
  note b = publish_failure_fails_command[of noAppDataPeers "''no peers''" "''blog''" None
      None False "''cid3''" None]
  from a b h1 h2 h3 h4 show ?thesis by blast
qed

text \<open>
  C5 as stated has the command succeed when its append succeeded and a publish failed.
  With nobody reachable on \<^verbatim>\<open>debros-app-data\<close>, a rollback of "blog" appends its event
  and returns the failure "no peers"; so does stopping "blog".
\<close>

theorem publish_failure_counterexample:
  "rollbackToVersion ''blog'' None None False noAppDataPeers =
     (failure ''no peers'',
      noAppDataPeers
        \<lparr>feed := [blogV1, blogV2,
                  \<lparr>appName = ''blog'', cid = ''cid1'', version = ''v1'', timestamp = 30,
                   deployed = True, domain = Some ''blog.debros.sol'', status = Running,
                   isRollback = None\<rparr>],
         trace := [Published ''debros-deploy''
                     (DeploymentMsg ''cid1'' ''blog'' ''v1'' ''blog.debros.sol'' (Some True) 30),
                   Added \<lparr>appName = ''blog'', cid = ''cid1'', version = ''v1'',
                          timestamp = 30, deployed = True,
                          domain = Some ''blog.debros.sol'', status = Running,
                          isRollback = None\<rparr>]\<rparr>) \<and>
   \<not> success (fst (rollbackToVersion ''blog'' None None False noAppDataPeers)) \<and>
   \<not> success (fst (stopApplication ''blog'' False noAppDataPeers)) \<and>
   feed (snd (stopApplication ''blog'' False noAppDataPeers)) =
     [blogV1, blogV2, blogV2\<lparr>status := Stopped, timestamp := 30\<rparr>]"
  by (simp add: rollbackToVersion_def stopApplication_def command_defs example_defs noAppDataPeers_def noAnnouncePeers_def)

text \<open>
  C6 (as amended). Let the version tag \<open>vt\<close> match no entry of the list of versions of
  the application. Then \<open>startApplication\<close> with this tag and, when the tag is not the
  empty string, \<open>rollbackToVersion\<close> with this tag leave the world as it is: nothing is
  appended and nothing is published. When libp2p is there, the result is the failure
  "Version vt not found" if the list of versions is not empty, and the failure
  "No versions found for" the application if it is empty.
\<close>

theorem unknown_version_changes_nothing:
  assumes "getAppVersions name w = Inr vs" and "find (\<lambda>v. tag v = vt) vs = None"
  shows "(vt \<noteq> [] \<longrightarrow>
            snd (rollbackToVersion name (Some vt) domainArg force w) = w \<and>
            (libp2p w \<and> vs \<noteq> [] \<longrightarrow>
               fst (rollbackToVersion name (Some vt) domainArg force w) =
                 failure (''Version '' @ vt @ '' not found'')) \<and>
            (libp2p w \<and> vs = [] \<longrightarrow>
               fst (rollbackToVersion name (Some vt) domainArg force w) =
                 failure (''No versions found for '' @ name))) \<and>
         snd (startApplication name (Some vt) w) = w \<and>
         (libp2p w \<and> vs \<noteq> [] \<longrightarrow>
            fst (startApplication name (Some vt) w) =
              failure (''Version '' @ vt @ '' not found'')) \<and>
         (libp2p w \<and> vs = [] \<longrightarrow>
            fst (startApplication name (Some vt) w) =
              failure (''No versions found for '' @ name))"
proof -
  from getAppVersions_Inr_env[OF assms(1)] have env: "ipfsErr w = None" "dbErr w = None"
    by auto
  have rb: "vt \<noteq> [] \<Longrightarrow> rollbackToVersion name (Some vt) domainArg force w =
          (if \<not> libp2p w then failure ''LibP2P is not initialized''
           else if vs = [] then failure (''No versions found for '' @ name)
           else failure (''Version '' @ vt @ '' not found''), w)"
    using assms env by (simp add: rollbackToVersion_def initIpfs_simps truthy_def)
  have st: "startApplication name (Some vt) w =
          (if \<not> libp2p w then failure ''LibP2P is not initialized''
           else if vs = [] then failure (''No versions found for '' @ name)
           else failure (''Version '' @ vt @ '' not found''), w)"
    using assms env by (simp add: startApplication_def initIpfs_simps)
  show ?thesis using rb st by simp
qed

theorem unknown_version_changes_nothing_witness:
  "getAppVersions ''blog'' blogWorld =
     Inr [\<lparr>tag = ''v2'', vcid = ''cid2'', vtimestamp = 20, vdeployed = True\<rparr>,
          \<lparr>tag = ''v1'', vcid = ''cid1'', vtimestamp = 10, vdeployed = False\<rparr>] \<and>
   find (\<lambda>v. tag v = ''v9'')
     [\<lparr>tag = ''v2'', vcid = ''cid2'', vtimestamp = 20, vdeployed = True\<rparr>,
      \<lparr>tag = ''v1'', vcid = ''cid1'', vtimestamp = 10, vdeployed = False\<rparr>] = None \<and>
   rollbackToVersion ''blog'' (Some ''v9'') None False blogWorld =
     (failure ''Version v9 not found'', blogWorld) \<and>
   startApplication ''blog'' (Some ''v9'') blogWorld =
     (failure ''Version v9 not found'', blogWorld) \<and>
   getAppVersions ''shop'' blogWorld = Inr [] \<and>
   rollbackToVersion ''shop'' (Some ''v9'') None False blogWorld =
     (failure ''No versions found for shop'', blogWorld) \<and>
   startApplication ''shop'' (Some ''v9'') blogWorld =
     (failure ''No versions found for shop'', blogWorld)"
proof -
  let ?vs = "[\<lparr>tag = ''v2'', vcid = ''cid2'', vtimestamp = 20, vdeployed = True\<rparr>,
          \<lparr>tag = ''v1'', vcid = ''cid1'', vtimestamp = 10, vdeployed = False\<rparr>]"
  have v: "getAppVersions ''blog'' blogWorld = Inr ?vs"
    by (simp add: command_defs example_defs)
  have f: "find (\<lambda>v. tag v = ''v9'') ?vs = None" by simp
  have l: "libp2p blogWorld" by (simp add: example_defs)
  from unknown_version_changes_nothing[OF v f, of None False] l
  have known: "rollbackToVersion ''blog'' (Some ''v9'') None False blogWorld =
          (failure ''Version v9 not found'', blogWorld)"
       "startApplication ''blog'' (Some ''v9'') blogWorld =
          (failure ''Version v9 not found'', blogWorld)"
    by (simp_all add: prod_eq_iff)
  have u: "getAppVersions ''shop'' blogWorld = Inr []"
    by (simp add: command_defs example_defs)
  have g: "find (\<lambda>v. tag v = ''v9'') ([] :: AppVersion list) = None" by simp
  from unknown_version_changes_nothing[OF u g, of None False] l
  have unknown: "rollbackToVersion ''shop'' (Some ''v9'') None False blogWorld =
          (failure ''No versions found for shop'', blogWorld)"
       "startApplication ''shop'' (Some ''v9'') blogWorld =
          (failure ''No versions found for shop'', blogWorld)"
    by (simp_all add: prod_eq_iff)
  from v f known u unknown show ?thesis by (intro conjI)
qed

text \<open>
  C6 as stated promises the version-not-found failure for every feed. On the empty feed
  the tag v9 matches no entry, and both commands return "No versions found for blog"
  instead.
\<close>

theorem unknown_version_counterexample:
  "getAppVersions ''blog'' calm = Inr [] \<and>
   find (\<lambda>v. tag v = ''v9'') ([] :: AppVersion list) = None \<and>
   rollbackToVersion ''blog'' (Some ''v9'') None False calm =
     (failure ''No versions found for blog'', calm) \<and>
   startApplication ''blog'' (Some ''v9'') calm =
     (failure ''No versions found for blog'', calm) \<and>
   failure ''No versions found for blog'' \<noteq> failure ''Version v9 not found''"
  by (simp add: rollbackToVersion_def startApplication_def command_defs example_defs)

text \<open>
  C7. Whatever the feed holds, a list returned by \<open>getAppVersions\<close> never has two
  entries with \<open>deployed = true\<close>; and when the feed can be read, \<open>getAppVersions\<close>
  does return such a list.
\<close>

theorem getAppVersions_at_most_one_deployed:
  assumes "ipfsErr w = None" and "dbErr w = None"
  shows "(\<exists>vs. getAppVersions name w = Inr vs \<and> length (filter vdeployed vs) \<le> 1) \<and>
         (getAppVersions name' w' = Inr us \<longrightarrow> length (filter vdeployed us) \<le> 1)"
proof -
  have any: "length (filter vdeployed us) \<le> 1" if "getAppVersions n v = Inr us" for n v us
    using that markLatestDeployed_at_most_one
    by (auto simp: getAppVersions_def Let_def split: sum.splits)
  from getAppVersions_returns[OF assms, of name] any[of name w] any[of name' w' us]
  show ?thesis by simp
qed

theorem getAppVersions_at_most_one_deployed_witness:
  "ipfsErr blogWorld = None \<and> dbErr blogWorld = None \<and>
   getAppVersions ''blog'' blogWorld =
     Inr [\<lparr>tag = ''v2'', vcid = ''cid2'', vtimestamp = 20, vdeployed = True\<rparr>,
          \<lparr>tag = ''v1'', vcid = ''cid1'', vtimestamp = 10, vdeployed = False\<rparr>] \<and>
   length (filter vdeployed
     [\<lparr>tag = ''v2'', vcid = ''cid2'', vtimestamp = 20, vdeployed = True\<rparr>,
      \<lparr>tag = ''v1'', vcid = ''cid1'', vtimestamp = 10, vdeployed = False\<rparr>]) \<le> 1"
proof -
  have h: "ipfsErr blogWorld = None" "dbErr blogWorld = None"
    by (simp_all add: example_defs)
  have v: "getAppVersions ''blog'' blogWorld =
     Inr [\<lparr>tag = ''v2'', vcid = ''cid2'', vtimestamp = 20, vdeployed = True\<rparr>,
          \<lparr>tag = ''v1'', vcid = ''cid1'', vtimestamp = 10, vdeployed = False\<rparr>]"
    by (simp add: command_defs example_defs)
  from getAppVersions_at_most_one_deployed[OF h, of "''blog''" "''blog''" blogWorld] v
  have "length (filter vdeployed
     [\<lparr>tag = ''v2'', vcid = ''cid2'', vtimestamp = 20, vdeployed = True\<rparr>,
      \<lparr>tag = ''v1'', vcid = ''cid1'', vtimestamp = 10, vdeployed = False\<rparr>]) \<le> 1"
    by blast
  with h v show ?thesis by (intro conjI)
qed

text \<open>
  C8 (as amended). \<open>deleteApplication\<close> leaves the feed exactly as it was: no event is
  removed or changed, and no event is appended either. The deletion shows only as the
  delete message published on \<^verbatim>\<open>debros-app-actions\<close>, when IPFS and libp2p are there
  and the publishing succeeds; nothing else of the world changes.
\<close>

theorem deleteApplication_appends_nothing:
  "feed (snd (deleteApplication name force w)) = feed w \<and>
   snd (deleteApplication name force w) =
     w\<lparr>trace := trace w @
         (if ipfsErr w = None \<and> libp2p w \<and> pubErr w ''debros-app-actions'' = None
          then [Published ''debros-app-actions'' (DeleteMsg name force (clock w))]
          else [])\<rparr>"
  by (simp add: deleteApplication_def initIpfs_def publish_def
      split: option.splits sum.splits)

text \<open>
  C8 as stated says the deletion is a new event appended to the feed. Deleting "blog"
  succeeds and the feed still holds the two events it held before.
\<close>

theorem deleteApplication_new_event_counterexample:
  "fst (deleteApplication ''blog'' False blogWorld) = succeeded \<and>
   feed (snd (deleteApplication ''blog'' False blogWorld)) = [blogV1, blogV2] \<and>
   feed blogWorld = [blogV1, blogV2] \<and>
   trace (snd (deleteApplication ''blog'' False blogWorld)) =
     [Published ''debros-app-actions'' (DeleteMsg ''blog'' False 30)]"
  by (simp add: deleteApplication_def command_defs example_defs)

text \<open>
  C9 (as amended). Let the application \<open>name\<close> have at least one event in the feed and
  let IPFS, libp2p, the feed and the publishing on both topics work. Then
  \<open>stopApplication\<close> succeeds and appends exactly one event: the entry \<open>getAllApps\<close> has
  for the application, with status stopped and the clock's timestamp. For every world
  and every name the feed after \<open>stopApplication\<close>, and after \<open>stopCommand\<close>, is the
  same with and without \<open>force\<close>. When the application has no event in the feed,
  nothing is appended.
\<close>

theorem stopApplication_clones_current_state:
  assumes env: "ipfsErr w = None" "libp2p w" "dbErr w = None" "addErr w = None"
      "pubErr w ''debros-app-actions'' = None" "pubErr w ''debros-app-data'' = None"
    and known: "name \<in> appName ` set (feed w)"
  shows "(\<exists>apps appData.
            getAllApps w = Inr apps \<and>
            find (\<lambda>app. appName app = name) apps = Some appData \<and>
            (let ev = appData\<lparr>status := Stopped, timestamp := clock w\<rparr>
             in stopApplication name force w =
                  (succeeded,
                   w\<lparr>feed := feed w @ [ev],
                     trace := trace w @
                       [Published ''debros-app-actions'' (StopMsg name force (clock w)),
                        Added ev,
                        Published ''debros-app-data'' (AppDataUpdateMsg ev (clock w))]\<rparr>))) \<and>
         feed (snd (stopApplication name' True w')) =
           feed (snd (stopApplication name' False w')) \<and>
         feed (snd (stopCommand name' (Some True) w')) =
           feed (snd (stopCommand name' None w')) \<and>
         (name' \<notin> appName ` set (feed w') \<longrightarrow>
            feed (snd (stopApplication name' force' w')) = feed w')"
proof -
  let ?apps = "map snd (foldl appMapStep [] (rev (feed w)))"
  have apps: "getAllApps w = Inr ?apps" using env(1,3) by (rule getAllApps_returns)
  from appMap_find_Some[OF known] obtain appData where
    f: "find (\<lambda>app. appName app = name) ?apps = Some appData" by blast
  let ?ev = "appData\<lparr>status := Stopped, timestamp := clock w\<rparr>"
  let ?w1 = "w\<lparr>trace := trace w @ [Published ''debros-app-actions'' (StopMsg name force (clock w))]\<rparr>"
  have st: "storeAppData ?ev ?w1 =
           (Inr True, ?w1\<lparr>feed := feed ?w1 @ [?ev],
                        trace := trace ?w1 @ [Added ?ev,
                          Published ''debros-app-data'' (AppDataUpdateMsg ?ev (clock ?w1))]\<rparr>)"
    by (rule storeAppData_ok) (use env in simp_all)
  have run: "stopApplication name force w =
          (succeeded,
           w\<lparr>feed := feed w @ [?ev],
             trace := trace w @
               [Published ''debros-app-actions'' (StopMsg name force (clock w)),
                Added ?ev,
                Published ''debros-app-data'' (AppDataUpdateMsg ?ev (clock w))]\<rparr>)"
    using env apps f st
    by (simp add: stopApplication_def initIpfs_simps publish_simps)
  have absent: "name' \<notin> appName ` set (feed w') \<longrightarrow>
            feed (snd (stopApplication name' force' w')) = feed w'"
  proof
    assume n: "name' \<notin> appName ` set (feed w')"
    have "\<And>apps. getAllApps w' = Inr apps \<Longrightarrow> find (\<lambda>app. appName app = name') apps = None"
      using appMap_find_None[OF n] by (auto dest: getAllApps_Inr)
    then show "feed (snd (stopApplication name' force' w')) = feed w'"
      by (auto simp: stopApplication_def initIpfs_def publish_def
          split: option.splits sum.splits prod.splits)
  qed
  have cmd: "feed (snd (stopCommand name' (Some True) w')) =
           feed (snd (stopCommand name' None w'))"
    using stopApplication_force_feed[of name' w']
    by (auto simp: stopCommand_def Let_def split: prod.splits)
  from apps f run stopApplication_force_feed[of name' w'] cmd absent show ?thesis
    by (simp add: Let_def)
qed

theorem stopApplication_clones_current_state_witness:
  "ipfsErr blogWorld = None \<and> libp2p blogWorld \<and> dbErr blogWorld = None \<and>
   addErr blogWorld = None \<and> pubErr blogWorld ''debros-app-actions'' = None \<and>
   pubErr blogWorld ''debros-app-data'' = None \<and>
   ''blog'' \<in> appName ` set (feed blogWorld) \<and>
   feed (snd (stopApplication ''blog'' True blogWorld)) =
     [blogV1, blogV2, blogV2\<lparr>status := Stopped, timestamp := 30\<rparr>] \<and>
   feed (snd (stopApplication ''blog'' True blogWorld)) =
     feed (snd (stopApplication ''blog'' False blogWorld)) \<and>
   feed (snd (stopCommand ''blog'' (Some True) blogWorld)) =
     feed (snd (stopCommand ''blog'' None blogWorld)) \<and>
   ''shop'' \<notin> appName ` set (feed blogWorld) \<and>
   feed (snd (stopApplication ''shop'' True blogWorld)) = feed blogWorld"
proof -
  have h: "ipfsErr blogWorld = None" "libp2p blogWorld" "dbErr blogWorld = None"
     "addErr blogWorld = None" "pubErr blogWorld ''debros-app-actions'' = None"
     "pubErr blogWorld ''debros-app-data'' = None"
     "''blog'' \<in> appName ` set (feed blogWorld)"
    by (simp_all add: example_defs)
  have v: "feed (snd (stopApplication ''blog'' True blogWorld)) =
     [blogV1, blogV2, blogV2\<lparr>status := Stopped, timestamp := 30\<rparr>]"
    by (simp add: stopApplication_def command_defs example_defs)
  from stopApplication_clones_current_state[OF h, of True "''blog''" blogWorld]
  have same: "feed (snd (stopApplication ''blog'' True blogWorld)) =
     feed (snd (stopApplication ''blog'' False blogWorld))"
    and cmd: "feed (snd (stopCommand ''blog'' (Some True) blogWorld)) =
     feed (snd (stopCommand ''blog'' None blogWorld))"
    by blast+
  have s: "''shop'' \<notin> appName ` set (feed blogWorld)"
    by (simp add: example_defs)
  from stopApplication_clones_current_state[OF h, of True "''shop''" blogWorld True] s
  have absent: "feed (snd (stopApplication ''shop'' True blogWorld)) = feed blogWorld"
    by blast
  from h v same cmd s absent show ?thesis by (intro conjI)
qed

text \<open>
  C9 as stated has an event appended for every application name and every feed. On the
  empty feed the command for "blog" publishes the stop message, succeeds and appends
  nothing.
\<close>

theorem stopApplication_unknown_app_counterexample:
  "stopApplication ''blog'' False calm =
     (succeeded, calm\<lparr>trace := [Published ''debros-app-actions'' (StopMsg ''blog'' False 30)]\<rparr>) \<and>
   feed (snd (stopApplication ''blog'' False calm)) = [] \<and>
   feed calm = []"
  by (simp add: stopApplication_def command_defs example_defs)

text \<open>
  C10. \<open>checkAppNameAvailability\<close> returns true exactly when the feed can be read and no
  event in it has the name, and false exactly when the feed can be read and some event
  has it. \<open>deleteApplication\<close> leaves the feed as it is. So once an event with the name
  is in the feed, after any history of commands of this CLI (deletions included) and of
  appends by other writers the check never answers true again, and \<open>uploadCommand\<close> for
  that name ends with exit code 1 without changing anything. An upload that succeeds
  found the name available and has appended an event with the name (and so has an
  announcement that succeeds); after it, whatever the history that follows, the check
  never answers true for the name and a further upload of it ends with exit code 1.
\<close>

theorem used_name_stays_taken:
  assumes "name \<in> appName ` set (feed w)"
  shows "checkAppNameAvailability name (run cmds w) \<noteq> Inr True \<and>
         uploadCommand ex name t d b (run cmds w) = (Exit1, run cmds w) \<and>
         feed (exec (Delete name f) w) = feed w \<and>
         (checkAppNameAvailability n w' = Inr True \<longleftrightarrow>
            ipfsErr w' = None \<and> dbErr w' = None \<and> n \<notin> appName ` set (feed w')) \<and>
         (checkAppNameAvailability n w' = Inr False \<longleftrightarrow>
            ipfsErr w' = None \<and> dbErr w' = None \<and> n \<in> appName ` set (feed w')) \<and>
         (fst (uploadCommand ex0 n0 t0 d0 b0 w0) = Uploaded \<longrightarrow>
            checkAppNameAvailability n0 w0 = Inr True \<and>
            (\<exists>ev. appName ev = n0 \<and>
               feed (snd (uploadCommand ex0 n0 t0 d0 b0 w0)) = feed w0 @ [ev]) \<and>
            n0 \<in> appName ` set (feed (snd (uploadCommand ex0 n0 t0 d0 b0 w0))) \<and>
            checkAppNameAvailability n0 (run cmds (snd (uploadCommand ex0 n0 t0 d0 b0 w0))) \<noteq>
              Inr True \<and>
            uploadCommand ex n0 t d b (run cmds (snd (uploadCommand ex0 n0 t0 d0 b0 w0))) =
              (Exit1, run cmds (snd (uploadCommand ex0 n0 t0 d0 b0 w0)))) \<and>
         (fst (announceDeployment c0 n0 v0 d0 w0) = Inr r0 \<longrightarrow>
            (\<exists>ev. appName ev = n0 \<and>
               feed (snd (announceDeployment c0 n0 v0 d0 w0)) = feed w0 @ [ev]))"
proof -
  have taken: "checkAppNameAvailability m (run cs v) \<noteq> Inr True \<and>
      uploadCommand ex m t d b (run cs v) = (Exit1, run cs v)"
    if "m \<in> appName ` set (feed v)" for m cs v
  proof -
    have "set (feed v) \<subseteq> set (feed (run cs v))"
      using run_feed[of v cs] by (rule set_mono_prefix)
    with that have later: "m \<in> appName ` set (feed (run cs v))" by auto
    then have "checkAppNameAvailability m (run cs v) \<noteq> Inr True"
      by (simp add: checkAppNameAvailability_eq split: option.splits)
    moreover from later have "uploadCommand ex m t d b (run cs v) = (Exit1, run cs v)"
      by (rule uploadCommand_taken)
    ultimately show ?thesis ..
  qed
  have del: "feed (exec (Delete name f) w) = feed w"
    by (simp add: deleteApplication_feed)
  have yes: "checkAppNameAvailability n w' = Inr True \<longleftrightarrow>
            ipfsErr w' = None \<and> dbErr w' = None \<and> n \<notin> appName ` set (feed w')"
    by (auto simp: checkAppNameAvailability_eq split: option.splits)
  have no: "checkAppNameAvailability n w' = Inr False \<longleftrightarrow>
            ipfsErr w' = None \<and> dbErr w' = None \<and> n \<in> appName ` set (feed w')"
    by (auto simp: checkAppNameAvailability_eq split: option.splits)
  have up: "fst (uploadCommand ex0 n0 t0 d0 b0 w0) = Uploaded \<longrightarrow>
            checkAppNameAvailability n0 w0 = Inr True \<and>
            (\<exists>ev. appName ev = n0 \<and>
               feed (snd (uploadCommand ex0 n0 t0 d0 b0 w0)) = feed w0 @ [ev]) \<and>
            n0 \<in> appName ` set (feed (snd (uploadCommand ex0 n0 t0 d0 b0 w0))) \<and>
            checkAppNameAvailability n0 (run cmds (snd (uploadCommand ex0 n0 t0 d0 b0 w0))) \<noteq>
              Inr True \<and>
            uploadCommand ex n0 t d b (run cmds (snd (uploadCommand ex0 n0 t0 d0 b0 w0))) =
              (Exit1, run cmds (snd (uploadCommand ex0 n0 t0 d0 b0 w0)))"
  proof
    let ?w1 = "snd (uploadCommand ex0 n0 t0 d0 b0 w0)"
    assume "fst (uploadCommand ex0 n0 t0 d0 b0 w0) = Uploaded"
    then have "uploadCommand ex0 n0 t0 d0 b0 w0 = (Uploaded, ?w1)"
      by (simp add: prod_eq_iff)
    from uploadCommand_success[OF this] obtain ev where
      av: "checkAppNameAvailability n0 w0 = Inr True"
      and ev: "appName ev = n0" "feed ?w1 = feed w0 @ [ev]"
      by blast
    from ev have inn: "n0 \<in> appName ` set (feed ?w1)" by auto
    from av ev inn taken[OF inn, of cmds]
    show "checkAppNameAvailability n0 w0 = Inr True \<and>
            (\<exists>ev. appName ev = n0 \<and> feed ?w1 = feed w0 @ [ev]) \<and>
            n0 \<in> appName ` set (feed ?w1) \<and>
            checkAppNameAvailability n0 (run cmds ?w1) \<noteq> Inr True \<and>
            uploadCommand ex n0 t d b (run cmds ?w1) = (Exit1, run cmds ?w1)"
      by blast
  qed
  have an: "fst (announceDeployment c0 n0 v0 d0 w0) = Inr r0 \<longrightarrow>
            (\<exists>ev. appName ev = n0 \<and>
               feed (snd (announceDeployment c0 n0 v0 d0 w0)) = feed w0 @ [ev])"
  proof
    assume "fst (announceDeployment c0 n0 v0 d0 w0) = Inr r0"
    then have "announceDeployment c0 n0 v0 d0 w0 =
        (Inr r0, snd (announceDeployment c0 n0 v0 d0 w0))"
      by (simp add: prod_eq_iff)
    then show "\<exists>ev. appName ev = n0 \<and>
        feed (snd (announceDeployment c0 n0 v0 d0 w0)) = feed w0 @ [ev]"
      by (rule announceDeployment_success_feed)
  qed
  from taken[OF assms, of cmds] del yes no up an show ?thesis by (intro conjI) simp_all
qed

theorem used_name_stays_taken_witness:
  "''blog'' \<in> appName ` set (feed blogWorld) \<and>
   checkAppNameAvailability ''blog'' (run [Delete ''blog'' True] blogWorld) = Inr False \<and>
   checkAppNameAvailability ''blog'' (run [Delete ''blog'' True] blogWorld) \<noteq> Inr True \<and>
   uploadCommand True ''blog'' None None (Inr ''cid3'') (run [Delete ''blog'' True] blogWorld) =
     (Exit1, run [Delete ''blog'' True] blogWorld) \<and>
   checkAppNameAvailability ''shop'' blogWorld = Inr True \<and>
   fst (uploadCommand True ''shop'' None None (Inr ''cid3'') blogWorld) = Uploaded \<and>
   ''shop'' \<in> appName ` set
      (feed (snd (uploadCommand True ''shop'' None None (Inr ''cid3'') blogWorld))) \<and>
   checkAppNameAvailability ''shop''
     (run [Delete ''shop'' True]
        (snd (uploadCommand True ''shop'' None None (Inr ''cid3'') blogWorld))) \<noteq> Inr True \<and>
   fst (uploadCommand True ''shop'' None None (Inr ''cid4'')
          (run [Delete ''shop'' True]
             (snd (uploadCommand True ''shop'' None None (Inr ''cid3'') blogWorld)))) = Exit1"
proof -
  have h: "''blog'' \<in> appName ` set (feed blogWorld)"
    by (simp add: example_defs)
  have v: "checkAppNameAvailability ''blog'' (run [Delete ''blog'' True] blogWorld) = Inr False"
    by (simp add: checkAppNameAvailability_def deleteApplication_def command_defs example_defs)
  have u: "fst (uploadCommand True ''shop'' None None (Inr ''cid3'') blogWorld) = Uploaded"
    by (simp add: uploadCommand_def checkAppNameAvailability_def announceDeployment_def
        stripDebrosSol_def lowerCase_def command_defs example_defs)
  note th = used_name_stays_taken[OF h, of "[Delete ''blog'' True]" True None None
      "Inr ''cid3''" True "''shop''" blogWorld True "''shop''" None None "Inr ''cid3''"
      blogWorld "''cid3''" None "True"]
  note th2 = used_name_stays_taken[OF h, of "[Delete ''shop'' True]" True None None
      "Inr ''cid4''" True "''shop''" blogWorld True "''shop''" None None "Inr ''cid3''"
      blogWorld "''cid3''" None "True"]
  from th have a: "checkAppNameAvailability ''blog'' (run [Delete ''blog'' True] blogWorld) \<noteq>
      Inr True"
    and b: "uploadCommand True ''blog'' None None (Inr ''cid3'')
        (run [Delete ''blog'' True] blogWorld) = (Exit1, run [Delete ''blog'' True] blogWorld)"
    by blast+
  from th2 u have c: "checkAppNameAvailability ''shop'' blogWorld = Inr True"
    and d: "''shop'' \<in> appName ` set
      (feed (snd (uploadCommand True ''shop'' None None (Inr ''cid3'') blogWorld)))"
    and e: "checkAppNameAvailability ''shop''
     (run [Delete ''shop'' True]
        (snd (uploadCommand True ''shop'' None None (Inr ''cid3'') blogWorld))) \<noteq> Inr True"
    and g: "uploadCommand True ''shop'' None None (Inr ''cid4'')
          (run [Delete ''shop'' True]
             (snd (uploadCommand True ''shop'' None None (Inr ''cid3'') blogWorld))) =
        (Exit1, run [Delete ''shop'' True]
             (snd (uploadCommand True ''shop'' None None (Inr ''cid3'') blogWorld)))"
    by blast+
  from g have g': "fst (uploadCommand True ''shop'' None None (Inr ''cid4'')
          (run [Delete ''shop'' True]
             (snd (uploadCommand True ''shop'' None None (Inr ''cid3'') blogWorld)))) = Exit1"
    by simp
  from h v a b c u d e g' show ?thesis by (intro conjI)
qed

end
